theory Spec2Isabelle
  imports Main "HOL-Library.Word"
begin

section \<open>The value model of the generated parser module\<close>

text \<open>
  The theory embeds \<^verbatim>\<open>xml_parser_generator/module_template.c\<close>.  A \<^verbatim>\<open>PyObject*\<close> is a
  \<open>pyobj option\<close>, with \<open>None\<close> for \<^verbatim>\<open>NULL\<close>.  Reference counts and allocation
  failure are not modelled: every allocation succeeds.  A C function that sets the Python
  error indicator and returns \<^verbatim>\<open>-1\<close> or \<^verbatim>\<open>NULL\<close> is a function into a sum whose
  \<open>Inl\<close> carries the exception; an assertion that fails or a read outside an array is
  the value \<open>Inl\<close> of a \<open>fault\<close>.
\<close>

datatype fault = AssertionFailure | OutOfBounds | DivisionByZero | SignedOverflow

datatype py_exc =
    ParseError "string option" "int option"
  | ParseWarning int string
  | TypeError string
  | ValueError string
  | IndexError string

datatype failure = Fault fault | Raised py_exc

definition bind_f :: "failure + 'a \<Rightarrow> ('a \<Rightarrow> failure + 'b) \<Rightarrow> failure + 'b" where
  "bind_f m f = (case m of Inl e \<Rightarrow> Inl e | Inr x \<Rightarrow> f x)"

text \<open>An array read \<^verbatim>\<open>xs[i]\<close>; C does not check the index.\<close>

definition arr_get :: "'a list \<Rightarrow> int \<Rightarrow> failure + 'a" where
  "arr_get xs i = (if 0 \<le> i \<and> nat i < length xs then Inr (xs ! nat i) else Inl (Fault OutOfBounds))"

text \<open>
  \<^verbatim>\<open>frozen_list\<close>: \<open>content\<close> is the initialised part of the array, so a well-formed
  list has \<open>length content = size\<close>.
\<close>

datatype 'v frozen_list =
  FrozenList (size_fl: nat) (capacity: nat) (content: "'v list")

datatype pyobj =
    Py_None
  | Py_Bool bool
  | PyLong int
  | PyUnicode string
  | EnumValue nat nat
  | TaggedValue "pyobj option" "pyobj option"
  | FrozenListObj "pyobj option frozen_list"
  | NodeTagonly nat "pyobj option list"
  | NodeList nat "pyobj option frozen_list" "pyobj option list"
  | TupleItem nat "pyobj option list"
  | PyList "pyobj list"

definition init_frozen_list :: "'v frozen_list" where
  "init_frozen_list = FrozenList 0 0 []"

definition frozen_list_wf :: "'v frozen_list \<Rightarrow> bool" where
  "frozen_list_wf fl \<longleftrightarrow> size_fl fl \<le> capacity fl \<and> length (content fl) = size_fl fl"

text \<open>\<^verbatim>\<open>frozen_list_push_object\<close>: the capacity starts at \<open>initial_cap\<close> and doubles.\<close>

definition frozen_list_push_object :: "'v frozen_list \<Rightarrow> 'v \<Rightarrow> nat \<Rightarrow> 'v frozen_list" where
  "frozen_list_push_object fl ob initial_cap =
     (let new_cap = (if capacity fl = 0 then initial_cap else capacity fl * 2);
          cap = (if size_fl fl = capacity fl then new_cap else capacity fl)
      in FrozenList (size_fl fl + 1) cap (take (size_fl fl) (content fl) @ [ob]))"

definition frozen_list_size :: "'v frozen_list \<Rightarrow> int" where
  "frozen_list_size fl = int (size_fl fl)"

definition frozen_list_item :: "'v frozen_list \<Rightarrow> int \<Rightarrow> py_exc + 'v" where
  "frozen_list_item fl i =
     (if i < 0 \<or> nat i \<ge> size_fl fl then Inl (IndexError ''index out of range'')
      else Inr (content fl ! nat i))"

subsection \<open>The iterator of a frozen list\<close>

record 'v frozen_list_itr =
  itr_i :: nat
  itr_fl :: "'v frozen_list option"

text \<open>
  \<^verbatim>\<open>frozen_list_tp_iter\<close> allocates a new iterator object on every call and leaves
  the list itself untouched; the iterator refers to the list only when it is not empty.
\<close>

definition frozen_list_tp_iter :: "'v frozen_list \<Rightarrow> 'v frozen_list_itr" where
  "frozen_list_tp_iter self =
     \<lparr>itr_i = 0, itr_fl = (if size_fl self \<noteq> 0 then Some self else None)\<rparr>"

text \<open>
  \<^verbatim>\<open>frozen_list_itr_tp_next\<close>: \<open>Inr (None, _)\<close> is the \<^verbatim>\<open>NULL\<close> return that ends
  the iteration.
\<close>

definition frozen_list_itr_tp_next ::
  "'v frozen_list_itr \<Rightarrow> fault + ('v option \<times> 'v frozen_list_itr)" where
  "frozen_list_itr_tp_next self =
     (case itr_fl self of
        None \<Rightarrow> Inr (None, self)
      | Some fl \<Rightarrow>
          if \<not> itr_i self < size_fl fl then Inl AssertionFailure
          else if \<not> itr_i self < length (content fl) then Inl OutOfBounds
          else
            let r = content fl ! itr_i self;
                i' = itr_i self + 1
            in Inr (Some r, \<lparr>itr_i = i', itr_fl = (if i' = size_fl fl then None else Some fl)\<rparr>))"

definition itr_remaining :: "'v frozen_list_itr \<Rightarrow> nat" where
  "itr_remaining it = (case itr_fl it of None \<Rightarrow> 0 | Some fl \<Rightarrow> Suc (size_fl fl - itr_i it))"

lemma itr_next_decreases:
  "frozen_list_itr_tp_next it = Inr (Some v, it') \<Longrightarrow> itr_remaining it' < itr_remaining it"
  by (auto simp: frozen_list_itr_tp_next_def itr_remaining_def Let_def
      split: option.splits if_splits)

text \<open>One pass of a consumer (a \<^verbatim>\<open>for\<close> loop): call next until it returns \<^verbatim>\<open>NULL\<close>.\<close>

function iterate_all :: "'v frozen_list_itr \<Rightarrow> fault + 'v list" where
  "iterate_all it =
     (case frozen_list_itr_tp_next it of
        Inl f \<Rightarrow> Inl f
      | Inr (None, _) \<Rightarrow> Inr []
      | Inr (Some v, it') \<Rightarrow>
          (case iterate_all it' of Inl f \<Rightarrow> Inl f | Inr vs \<Rightarrow> Inr (v # vs)))"
  by pat_completeness auto
termination
  by (relation "measure itr_remaining") (auto dest: itr_next_decreases)

declare iterate_all.simps [simp del]

text \<open>
  \<open>n\<close> passes over the same list, one after the other, each from its own call of
  \<^verbatim>\<open>frozen_list_tp_iter\<close>.  Neither that function nor
  \<^verbatim>\<open>frozen_list_itr_tp_next\<close> writes to the list, so every pass starts from the
  same list value.
\<close>

fun iteration_passes :: "nat \<Rightarrow> 'v frozen_list \<Rightarrow> (fault + 'v list) list" where
  "iteration_passes 0 fl = []"
| "iteration_passes (Suc n) fl = iterate_all (frozen_list_tp_iter fl) # iteration_passes n fl"

lemma iterate_all_from:
  "length cs = n \<Longrightarrow> k < n \<Longrightarrow>
   iterate_all \<lparr>itr_i = k, itr_fl = Some (FrozenList n c cs)\<rparr> = Inr (drop k cs)"
proof (induction "n - k" arbitrary: k)
  case 0
  then show ?case by simp
next
  case (Suc d)
  show ?case
  proof (cases "Suc k = n")
    case True
    have "iterate_all \<lparr>itr_i = Suc k, itr_fl = None :: 'a frozen_list option\<rparr> = Inr []"
      by (subst iterate_all.simps) (simp add: frozen_list_itr_tp_next_def)
    moreover have "drop k cs = [cs ! k]"
      using Suc.prems True by (metis Cons_nth_drop_Suc drop_all lessI order_refl)
    ultimately show ?thesis
      using Suc.prems True
      by (subst iterate_all.simps) (simp add: frozen_list_itr_tp_next_def Let_def)
  next
    case False
    then have lt: "Suc k < n" using Suc.prems by simp
    have "d = n - Suc k" using Suc.hyps by simp
    then have ih: "iterate_all \<lparr>itr_i = Suc k, itr_fl = Some (FrozenList n c cs)\<rparr>
        = Inr (drop (Suc k) cs)"
      using Suc.hyps(1) Suc.prems(1) lt by blast
    have "drop k cs = cs ! k # drop (Suc k) cs"
      using Suc.prems by (simp add: Cons_nth_drop_Suc)
    then show ?thesis
      using Suc.prems False ih
      by (subst iterate_all.simps) (simp add: frozen_list_itr_tp_next_def Let_def)
  qed
qed

lemma iterate_all_tp_iter:
  assumes "frozen_list_wf fl"
  shows "iterate_all (frozen_list_tp_iter fl) = Inr (content fl)"
proof (cases fl)
  case (FrozenList n c cs)
  show ?thesis
  proof (cases "n = 0")
    case True
    then show ?thesis
      using assms FrozenList
      by (subst iterate_all.simps)
        (simp add: frozen_list_tp_iter_def frozen_list_itr_tp_next_def frozen_list_wf_def)
  next
    case False
    then show ?thesis
      using assms FrozenList iterate_all_from [of cs n 0 c]
      by (simp add: frozen_list_tp_iter_def frozen_list_wf_def)
  qed
qed

lemma frozen_list_items:
  assumes "frozen_list_wf fl"
  shows "map (\<lambda>i. frozen_list_item fl (int i)) [0..<size_fl fl] = map Inr (content fl)"
  using assms
  by (intro nth_equalityI) (auto simp: frozen_list_item_def frozen_list_wf_def)

text \<open>
  C8.  For every well-formed frozen list, a pass that starts from a fresh request for an
  iterator yields exactly the elements of the list in order; any number of passes, each
  from a request of its own, yields that same sequence every time (no pass exhausts the
  list for a later one); and the sequence is the one indexed access gives at
  \<open>0, ..., size - 1\<close>.
\<close>

theorem frozen_list_repeated_iteration:
  assumes "frozen_list_wf fl"
  shows "iterate_all (frozen_list_tp_iter fl) = Inr (content fl)
       \<and> (\<forall>n. iteration_passes n fl = replicate n (Inr (content fl)))
       \<and> map (\<lambda>i. frozen_list_item fl (int i)) [0..<size_fl fl] = map Inr (content fl)"
proof -
  have "iteration_passes n fl = replicate n (Inr (content fl))" for n
    by (induction n) (simp_all add: iterate_all_tp_iter [OF assms])
  then show ?thesis
    using iterate_all_tp_iter [OF assms] frozen_list_items [OF assms] by simp
qed

theorem frozen_list_repeated_iteration_witness:
  "frozen_list_wf (FrozenList 3 5 [PyLong 1, PyLong 2, PyLong 3])
   \<and> iterate_all (frozen_list_tp_iter (FrozenList 3 5 [PyLong 1, PyLong 2, PyLong 3]))
       = Inr [PyLong 1, PyLong 2, PyLong 3]
   \<and> iteration_passes 2 (FrozenList 3 5 [PyLong 1, PyLong 2, PyLong 3])
       = [Inr [PyLong 1, PyLong 2, PyLong 3], Inr [PyLong 1, PyLong 2, PyLong 3]]"
proof -
  have wf: "frozen_list_wf (FrozenList 3 5 [PyLong 1, PyLong 2, PyLong 3])"
    by (simp add: frozen_list_wf_def)
  have two: "replicate 2 x = [x, x]" for x :: "fault + pyobj list"
    by (simp add: numeral_2_eq_2)
  show ?thesis
    using wf frozen_list_repeated_iteration [OF wf] by (simp add: two)
qed

section \<open>The parse state and its diagnostics\<close>

text \<open>
  The function pointers of a frame are values of three enumerations, one per callback
  type; the generated functions are named by the index of their element type.
\<close>

datatype child_start_callback = Toplevel_start | Node_class_child_start nat

datatype text_callback = Node_string_text | Node_list_common_text

datatype finish_callback = Node_string_end | Node_class_finish nat

text \<open>
  A \<^verbatim>\<open>PyObject**\<close> is the path from \<^verbatim>\<open>&r_obj\<close> to the slot: the produced graph is a
  tree, so a path names one slot.
\<close>

datatype sel = Payload | Field nat | Item nat

type_synonym slot = "sel list"

record parse_callbacks =
  cb_value :: "slot option"
  cs_call :: "child_start_callback option"
  t_call :: "text_callback option"
  f_call :: "finish_callback option"

text \<open>
  \<^verbatim>\<open>parse_state\<close>, with the parts of the surroundings the callbacks read and write:
  \<open>stack\<close> is the callback stack of \<^verbatim>\<open>block\<close> and \<^verbatim>\<open>block_used\<close>, top first;
  \<open>lineno\<close> is \<^verbatim>\<open>XML_GetCurrentLineNumber(state->parser)\<close>, \<open>xml_error\<close> is
  \<^verbatim>\<open>XML_ErrorString(XML_GetErrorCode(state->parser))\<close> and \<open>stopped\<close> records a call of
  \<^verbatim>\<open>XML_StopParser\<close>; \<open>warn_is_error\<close> is the warnings filter (when it turns the
  warning into an exception, \<^verbatim>\<open>PyErr_WarnFormat\<close> returns \<^verbatim>\<open>-1\<close>), \<open>warnings\<close> are
  the warnings issued so far, each with the line and the text that follow
  \<^verbatim>\<open>Warning on line\<close> in its message, and \<open>exc\<close> is the error indicator; \<open>r_obj\<close> is the local
  variable of \<^verbatim>\<open>parse\<close> that the first frame points to.
\<close>

record parse_state =
  stack :: "parse_callbacks list"
  ignore_level :: int
  lineno :: int
  xml_error :: "string option"
  stopped :: bool
  warn_is_error :: bool
  warnings :: "(int \<times> string) list"
  exc :: "py_exc option"
  r_obj :: "pyobj option"

text \<open>The decimal digits of a number, as \<^verbatim>\<open>%zi\<close> prints it.\<close>

function decimal :: "nat \<Rightarrow> string" where
  "decimal n =
     (if n < 10 then [char_of (48 + n)] else decimal (n div 10) @ [char_of (48 + n mod 10)])"
  by pat_completeness auto
termination
  by (relation "measure id") auto

declare decimal.simps [simp del]

definition quoted :: "string \<Rightarrow> string" where
  "quoted s = CHR 0x22 # s @ [CHR 0x22]"

text \<open>
  \<^verbatim>\<open>set_parse_error\<close> does not use its \<^verbatim>\<open>msg\<close> argument: the message of the exception
  is the error string of the expat parser.
\<close>

definition set_parse_error :: "parse_state \<Rightarrow> string \<Rightarrow> py_exc" where
  "set_parse_error st msg = ParseError (xml_error st) (Some (lineno st))"

definition set_parse_error_format :: "parse_state \<Rightarrow> string \<Rightarrow> py_exc" where
  "set_parse_error_format st msg = ParseError (Some msg) (Some (lineno st))"

section \<open>Rows of a tuple-sequence content group\<close>

record tuple_item =
  ti_class :: nat
  ti_fields :: "pyobj option list"

definition create_tuple_item :: "nat \<Rightarrow> nat \<Rightarrow> tuple_item" where
  "create_tuple_item class_index n = \<lparr>ti_class = class_index, ti_fields = replicate n None\<rparr>"

definition arr_at :: "'a list \<Rightarrow> nat \<Rightarrow> failure + 'a" where
  "arr_at xs i = (if i < length xs then Inr (xs ! i) else Inl (Fault OutOfBounds))"

definition last_item :: "'v frozen_list \<Rightarrow> failure + 'v" where
  "last_item fl =
     (if size_fl fl = 0 then Inl (Fault OutOfBounds) else arr_at (content fl) (size_fl fl - 1))"

text \<open>
  \<^verbatim>\<open>frozen_list_push_tuple_item\<close>.  The indices \<^verbatim>\<open>tuple_i\<close> and \<^verbatim>\<open>tuple_size\<close> are
  constants of a generated enumeration, never negative.  The result is the list and the
  address of the slot to fill, as the index of the row and the index of the field in it.
\<close>

definition frozen_list_push_tuple_item ::
  "parse_state \<Rightarrow> nat \<Rightarrow> nat \<Rightarrow> string list \<Rightarrow> nat \<Rightarrow> tuple_item frozen_list \<Rightarrow> nat
   \<Rightarrow> failure + (tuple_item frozen_list \<times> nat \<times> nat)" where
  "frozen_list_push_tuple_item st tuple_i tuple_size field_names class_index fl initial_cap =
     (if \<not> tuple_size > 0 then Inl (Fault AssertionFailure)
      else if tuple_i = 0 then
        bind_f (if size_fl fl \<noteq> 0
                then bind_f (last_item fl) (\<lambda>l.
                     bind_f (arr_at (ti_fields l) (tuple_size - 1)) (\<lambda>f. Inr (f = None)))
                else Inr False) (\<lambda>incomplete.
        if incomplete then
          bind_f (arr_at field_names 0) (\<lambda>n0.
          bind_f (arr_at field_names (tuple_size - 1)) (\<lambda>n1.
            Inl (Raised (set_parse_error_format st
              (quoted n0 @ '' element can only come after '' @ quoted n1
                 @ '' element or be the first in its group'')))))
        else
          let new_tuple = create_tuple_item class_index tuple_size;
              fl' = frozen_list_push_object fl new_tuple initial_cap
          in Inr (fl', size_fl fl' - 1, 0))
      else
        bind_f (if size_fl fl = 0 then Inr True
                else bind_f (last_item fl) (\<lambda>l.
                     bind_f (arr_at (ti_fields l) (tuple_i - 1)) (\<lambda>f. Inr (f = None)))) (\<lambda>missing.
        if missing then
          bind_f (arr_at field_names tuple_i) (\<lambda>n0.
          bind_f (arr_at field_names (tuple_i - 1)) (\<lambda>n1.
            Inl (Raised (set_parse_error_format st
              (quoted n0 @ '' element can only come after '' @ quoted n1 @ '' element'')))))
        else Inr (fl, size_fl fl - 1, tuple_i)))"

text \<open>
  The loop \<^verbatim>\<open>while(last->fields[i-1] == NULL) --i;\<close> of
  \<^verbatim>\<open>frozen_list_check_complete_tuple\<close>, by recursion on \<open>i\<close>; at \<open>i = 0\<close> it reads
  \<^verbatim>\<open>fields[-1]\<close>.
\<close>

fun last_filled :: "pyobj option list \<Rightarrow> nat \<Rightarrow> failure + nat" where
  "last_filled fs 0 = Inl (Fault OutOfBounds)"
| "last_filled fs (Suc j) =
     bind_f (arr_at fs j) (\<lambda>f. if f = None then last_filled fs j else Inr (Suc j))"

definition frozen_list_check_complete_tuple ::
  "parse_state \<Rightarrow> nat \<Rightarrow> string list \<Rightarrow> tuple_item frozen_list \<Rightarrow> failure + unit" where
  "frozen_list_check_complete_tuple st tuple_size field_names fl =
     (if size_fl fl \<noteq> 0 then
        bind_f (last_item fl) (\<lambda>last.
        bind_f (arr_at (ti_fields last) 0) (\<lambda>f0.
        if f0 = None then Inl (Fault AssertionFailure)
        else
          bind_f (last_filled (ti_fields last) tuple_size) (\<lambda>i.
          if i \<noteq> tuple_size then
            bind_f (arr_at field_names i) (\<lambda>n0.
            bind_f (arr_at field_names (i - 1)) (\<lambda>n1.
              Inl (Raised (set_parse_error_format st
                (quoted n0 @ '' element must come after '' @ quoted n1 @ '' element'')))))
          else Inr ())))
      else Inr ())"

text \<open>
  A row is filled from the left: \<^verbatim>\<open>frozen_list_push_tuple_item\<close> hands out field
  \<open>i\<close> only after field \<open>i - 1\<close> of the row is set.
\<close>

definition filled_from_left :: "pyobj option list \<Rightarrow> bool" where
  "filled_from_left fs \<longleftrightarrow> (\<forall>j < length fs. fs ! j \<noteq> None \<longrightarrow> (\<forall>k < j. fs ! k \<noteq> None))"

definition rows_ok :: "nat \<Rightarrow> string list \<Rightarrow> tuple_item frozen_list \<Rightarrow> bool" where
  "rows_ok tuple_size field_names fl \<longleftrightarrow>
     0 < tuple_size \<and> length field_names = tuple_size \<and> frozen_list_wf fl \<and>
     (\<forall>r \<in> set (content fl). length (ti_fields r) = tuple_size)"


lemma last_filled_result:
  "fs ! 0 \<noteq> None \<Longrightarrow> n \<le> length fs \<Longrightarrow> 0 < n \<Longrightarrow>
   \<exists>k. last_filled fs n = Inr k \<and> 0 < k \<and> k \<le> n \<and> (k = n \<longleftrightarrow> fs ! (n - 1) \<noteq> None)"
proof (induction n)
  case 0
  then show ?case by simp
next
  case (Suc n)
  show ?case
  proof (cases "fs ! n = None")
    case True
    then have "0 < n" using Suc.prems by (cases n) auto
    then obtain k where "last_filled fs n = Inr k" "0 < k" "k \<le> n"
      using Suc by auto
    then show ?thesis
      using True Suc.prems by (auto simp: bind_f_def arr_at_def)
  next
    case False
    then show ?thesis
      using Suc.prems by (auto simp: bind_f_def arr_at_def)
  qed
qed

lemma last_item_eq:
  "frozen_list_wf fl \<Longrightarrow> size_fl fl \<noteq> 0 \<Longrightarrow> last_item fl = Inr (last (content fl))"
  by (cases "content fl" rule: rev_cases)
     (auto simp: last_item_def arr_at_def frozen_list_wf_def nth_append)

lemma incomplete_last_unfilled:
  assumes "filled_from_left fs" "j < n" "fs ! j = None" "n \<le> length fs"
  shows "fs ! (n - 1) = None"
proof (rule ccontr)
  assume "fs ! (n - 1) \<noteq> None"
  moreover have "n - 1 < length fs" using assms by simp
  ultimately have "\<forall>k < n - 1. fs ! k \<noteq> None"
    using assms(1) unfolding filled_from_left_def by blast
  moreover have "j < n - 1 \<or> j = n - 1" using assms(2) by auto
  ultimately show False using assms(3) \<open>fs ! (n - 1) \<noteq> None\<close> by auto
qed

lemma last_row_length:
  assumes "rows_ok tuple_size field_names fl" "size_fl fl \<noteq> 0"
  shows "length (ti_fields (last (content fl))) = tuple_size"
proof -
  have "content fl \<noteq> []" using assms by (auto simp: rows_ok_def frozen_list_wf_def)
  then have "last (content fl) \<in> set (content fl)" by (rule last_in_set)
  then show ?thesis using assms(1) by (simp add: rows_ok_def)
qed

lemma push_first_after_incomplete:
  assumes ok: "rows_ok tuple_size field_names fl"
    and ne: "size_fl fl \<noteq> 0"
    and un: "ti_fields (last (content fl)) ! (tuple_size - 1) = None"
  shows "frozen_list_push_tuple_item st 0 tuple_size field_names c fl cap =
         Inl (Raised (ParseError
           (Some (quoted (field_names ! 0) @ '' element can only come after ''
                  @ quoted (field_names ! (tuple_size - 1))
                  @ '' element or be the first in its group''))
           (Some (lineno st))))"
proof -
  have ts: "0 < tuple_size" and ln: "length field_names = tuple_size"
    and wf: "frozen_list_wf fl"
    using ok by (auto simp: rows_ok_def)
  show ?thesis
    using ts ln ne un last_row_length [OF ok ne] last_item_eq [OF wf ne]
    by (simp add: frozen_list_push_tuple_item_def bind_f_def arr_at_def
        set_parse_error_format_def)
qed

lemma push_field_before_previous:
  assumes ok: "rows_ok tuple_size field_names fl"
    and i: "0 < i" "i < tuple_size"
    and un: "size_fl fl = 0 \<or> ti_fields (last (content fl)) ! (i - 1) = None"
  shows "frozen_list_push_tuple_item st i tuple_size field_names c fl cap =
         Inl (Raised (ParseError
           (Some (quoted (field_names ! i) @ '' element can only come after ''
                  @ quoted (field_names ! (i - 1)) @ '' element''))
           (Some (lineno st))))"
proof -
  have ts: "0 < tuple_size" and ln: "length field_names = tuple_size"
    and wf: "frozen_list_wf fl"
    using ok by (auto simp: rows_ok_def)
  show ?thesis
  proof (cases "size_fl fl = 0")
    case True
    then show ?thesis
      using ts ln i
      by (simp add: frozen_list_push_tuple_item_def bind_f_def arr_at_def
          set_parse_error_format_def)
  next
    case False
    then show ?thesis
      using ts ln i un last_row_length [OF ok False] last_item_eq [OF wf False]
      by (simp add: frozen_list_push_tuple_item_def bind_f_def arr_at_def
          set_parse_error_format_def)
  qed
qed

lemma check_incomplete_row:
  assumes ok: "rows_ok tuple_size field_names fl"
    and ne: "size_fl fl \<noteq> 0"
    and f0: "ti_fields (last (content fl)) ! 0 \<noteq> None"
    and fl: "filled_from_left (ti_fields (last (content fl)))"
    and inc: "\<exists>j < tuple_size. ti_fields (last (content fl)) ! j = None"
  shows "\<exists>k. 0 < k \<and> k < tuple_size \<and>
          frozen_list_check_complete_tuple st tuple_size field_names fl =
            Inl (Raised (ParseError
              (Some (quoted (field_names ! k) @ '' element must come after ''
                     @ quoted (field_names ! (k - 1)) @ '' element''))
              (Some (lineno st))))"
proof -
  have ts: "0 < tuple_size" and ln: "length field_names = tuple_size"
    and wf: "frozen_list_wf fl"
    using ok by (auto simp: rows_ok_def)
  define fs where "fs = ti_fields (last (content fl))"
  have len: "length fs = tuple_size"
    using last_row_length [OF ok ne] by (simp add: fs_def)
  have lastNone: "fs ! (tuple_size - 1) = None"
    using inc incomplete_last_unfilled [of fs _ tuple_size] fl len by (auto simp: fs_def)
  obtain k where k: "last_filled fs tuple_size = Inr k" "0 < k" "k \<le> tuple_size"
      "k = tuple_size \<longleftrightarrow> fs ! (tuple_size - 1) \<noteq> None"
    using last_filled_result [of fs tuple_size] f0 len ts by (auto simp: fs_def)
  then have klt: "k < tuple_size" using lastNone by auto
  have "frozen_list_check_complete_tuple st tuple_size field_names fl =
            Inl (Raised (ParseError
              (Some (quoted (field_names ! k) @ '' element must come after ''
                     @ quoted (field_names ! (k - 1)) @ '' element''))
              (Some (lineno st))))"
  proof -
    have "k - 1 < tuple_size" "fs \<noteq> []" using klt len ts by auto
    then show ?thesis
      using ne f0 k(1,2) klt ts ln len last_item_eq [OF wf ne]
      by (simp add: frozen_list_check_complete_tuple_def bind_f_def arr_at_def
          set_parse_error_format_def fs_def)
  qed
  then show ?thesis using k(2) klt by blast
qed

text \<open>
  What the two functions do check.  In a group whose rows have \<open>tuple_size\<close> fields:
  asking for the first field of a new row while the last field of the last row is unset
  fails with a ParseError whose message names the first and the last field; asking for
  field \<open>i > 0\<close> while there is no row, or field \<open>i - 1\<close> of the last row is unset,
  fails with a ParseError whose message names field \<open>i\<close> and field \<open>i - 1\<close>; and
  finishing the group while the last row, filled from the left, has an unset field fails
  with a ParseError as well.
\<close>

lemma tuple_row_checks:
  assumes ok: "rows_ok tuple_size field_names fl"
  shows
   "(size_fl fl \<noteq> 0 \<and> ti_fields (last (content fl)) ! (tuple_size - 1) = None \<longrightarrow>
       frozen_list_push_tuple_item st 0 tuple_size field_names c fl cap =
         Inl (Raised (ParseError
           (Some (quoted (field_names ! 0) @ '' element can only come after ''
                  @ quoted (field_names ! (tuple_size - 1))
                  @ '' element or be the first in its group''))
           (Some (lineno st)))))
    \<and> (0 < i \<and> i < tuple_size \<and>
         (size_fl fl = 0 \<or> ti_fields (last (content fl)) ! (i - 1) = None) \<longrightarrow>
       frozen_list_push_tuple_item st i tuple_size field_names c fl cap =
         Inl (Raised (ParseError
           (Some (quoted (field_names ! i) @ '' element can only come after ''
                  @ quoted (field_names ! (i - 1)) @ '' element''))
           (Some (lineno st)))))
    \<and> (size_fl fl \<noteq> 0 \<and> ti_fields (last (content fl)) ! 0 \<noteq> None \<and>
        filled_from_left (ti_fields (last (content fl))) \<and>
        (\<exists>j < tuple_size. ti_fields (last (content fl)) ! j = None) \<longrightarrow>
       (\<exists>k. 0 < k \<and> k < tuple_size \<and>
          frozen_list_check_complete_tuple st tuple_size field_names fl =
            Inl (Raised (ParseError
              (Some (quoted (field_names ! k) @ '' element must come after ''
                     @ quoted (field_names ! (k - 1)) @ '' element''))
              (Some (lineno st))))))"
  using push_first_after_incomplete [OF ok] push_field_before_previous [OF ok]
    check_incomplete_row [OF ok]
  by blast

text \<open>
  The rows of a group of pairs with the fields \<open>a\<close> and \<open>b\<close>, for the content
  \<^verbatim>\<open><a>x</a><b>y</b><b>z</b>\<close>: the state in which the functions are called, and the list
  before \<open>a\<close>, after \<open>a\<close> has started, after \<open>x\<close> is stored and after \<open>y\<close> is
  stored.
\<close>

definition row_state :: parse_state where
  "row_state =
     \<lparr>stack = [], ignore_level = 0, lineno = 3, xml_error = None, stopped = False,
      warn_is_error = False, warnings = [], exc = None, r_obj = None\<rparr>"

definition rows_of :: "pyobj option list \<Rightarrow> tuple_item frozen_list" where
  "rows_of fs = FrozenList 1 5 [\<lparr>ti_class = 7, ti_fields = fs\<rparr>]"

text \<open>
  C3.  The second field of a row is asked for again after the row is finished, which is
  the second field before the first field of a new row.  For the first \<open>b\<close> the
  function hands out field 1 of the row; for the second \<open>b\<close> it reads field 0 of the
  finished row, finds it set, raises nothing and hands out field 1 of that row once more,
  although it is filled: the element that starts is stored over \<open>y\<close>.  At the end of
  the group \<^verbatim>\<open>frozen_list_check_complete_tuple\<close> accepts the row.  No error names the
  two fields.
\<close>

theorem tuple_field_after_finished_row:
  "frozen_list_push_tuple_item row_state 0 2 [''a'', ''b''] 7 init_frozen_list 5 =
     Inr (rows_of [None, None], 0, 0)
   \<and> frozen_list_push_tuple_item row_state 1 2 [''a'', ''b''] 7
       (rows_of [Some (PyUnicode ''x''), None]) 5 =
     Inr (rows_of [Some (PyUnicode ''x''), None], 0, 1)
   \<and> frozen_list_push_tuple_item row_state 1 2 [''a'', ''b''] 7
       (rows_of [Some (PyUnicode ''x''), Some (PyUnicode ''y'')]) 5 =
     Inr (rows_of [Some (PyUnicode ''x''), Some (PyUnicode ''y'')], 0, 1)
   \<and> frozen_list_check_complete_tuple row_state 2 [''a'', ''b'']
       (rows_of [Some (PyUnicode ''x''), Some (PyUnicode ''z'')]) =
     Inr ()"
  by (simp add: frozen_list_push_tuple_item_def frozen_list_check_complete_tuple_def
      rows_of_def row_state_def init_frozen_list_def frozen_list_push_object_def
      create_tuple_item_def last_item_def arr_at_def bind_f_def numeral_2_eq_2)

section \<open>The name resolver\<close>

text \<open>
  The tables of a perfect hash are generated from the schema: two salts of the same
  length and the array \<^verbatim>\<open>g\<close>.  A C string is the list of its bytes before the
  terminating NUL.  Whether \<^verbatim>\<open>char\<close> is signed is left to the C implementation, so
  the functions take it as their first argument.
\<close>

record hash_info =
  salt1 :: string
  salt2 :: string
  g :: "int list"

definition c_char :: "bool \<Rightarrow> char \<Rightarrow> int" where
  "c_char char_signed c =
     (if char_signed \<and> 128 \<le> (of_char c :: nat) then int (of_char c) - 256
      else int (of_char c))"

text \<open>The operator \<^verbatim>\<open>%\<close> of C truncates towards zero.\<close>

definition c_rem :: "int \<Rightarrow> int \<Rightarrow> int" where
  "c_rem a b = sgn a * (\<bar>a\<bar> mod \<bar>b\<bar>)"

text \<open>
  The loop \<^verbatim>\<open>for(i=0; key[i] && i<salt_length; i++)\<close> of the macro
  \<^verbatim>\<open>hash_lookup\<close>, from index \<open>i\<close> on.
\<close>

fun hash_loop :: "bool \<Rightarrow> hash_info \<Rightarrow> string \<Rightarrow> nat \<Rightarrow> int \<Rightarrow> int \<Rightarrow> int \<times> int" where
  "hash_loop sg h [] i f1 f2 = (f1, f2)"
| "hash_loop sg h (k # key) i f1 f2 =
     (if i < length (salt1 h)
      then hash_loop sg h key (Suc i)
             (f1 + c_char sg (salt1 h ! i) * c_char sg k)
             (f2 + c_char sg (salt2 h ! i) * c_char sg k)
      else (f1, f2))"

text \<open>
  The function that the macro \<^verbatim>\<open>hash_lookup\<close> generates when the schema has a hash for
  the names: \<open>count\<close>, \<open>names\<close> and \<open>dflt\<close> are the macro's arguments
  \<^verbatim>\<open>count\<close>, \<^verbatim>\<open>names\<close> and \<^verbatim>\<open>default\<close>.
\<close>

definition hash_lookup ::
  "bool \<Rightarrow> hash_info \<Rightarrow> int \<Rightarrow> string list \<Rightarrow> int \<Rightarrow> string \<Rightarrow> failure + int" where
  "hash_lookup sg h count names dflt key =
     (let g_length = int (length (g h));
          (f1, f2) = hash_loop sg h key 0 0 0
      in if g_length = 0 then Inl (Fault DivisionByZero)
         else
           bind_f (arr_get (g h) (c_rem f1 g_length)) (\<lambda>a.
           bind_f (arr_get (g h) (c_rem f2 g_length)) (\<lambda>b.
             let i = c_rem (a + b) g_length
             in if i < count
                then bind_f (arr_get names i) (\<lambda>nm. Inr (if key = nm then i else dflt))
                else Inr dflt)))"

text \<open>The function it generates when there is no hash: a linear scan.\<close>

fun find_str_from :: "string \<Rightarrow> string list \<Rightarrow> int \<Rightarrow> int" where
  "find_str_from str [] i = -1"
| "find_str_from str (a # array) i = (if str = a then i else find_str_from str array (i + 1))"

definition find_str_in_array :: "string \<Rightarrow> string list \<Rightarrow> int" where
  "find_str_in_array str array = find_str_from str array 0"

text \<open>
  \<^verbatim>\<open>py_field_lookup\<close>.  The key is a Python string, a list of code points
  (\<^verbatim>\<open>Py_UCS4\<close>); \<open>None\<close> from the loop is its early return of \<^verbatim>\<open>PY_FIELD_OTHER\<close>.
\<close>

fun py_field_loop ::
  "bool \<Rightarrow> hash_info \<Rightarrow> nat list \<Rightarrow> nat \<Rightarrow> int \<Rightarrow> int \<Rightarrow> (int \<times> int) option" where
  "py_field_loop sg h [] i f1 f2 = Some (f1, f2)"
| "py_field_loop sg h (b # buffer) i f1 f2 =
     (if b > 127 then None
      else py_field_loop sg h buffer (Suc i)
             (f1 + c_char sg (salt1 h ! i) * int b)
             (f2 + c_char sg (salt2 h ! i) * int b))"

definition PY_FIELD_OTHER :: "int \<Rightarrow> int" where
  "PY_FIELD_OTHER PY_FIELD_COUNT = PY_FIELD_COUNT + 1"

definition py_field_lookup ::
  "bool \<Rightarrow> hash_info \<Rightarrow> int \<Rightarrow> string list \<Rightarrow> nat list \<Rightarrow> failure + int" where
  "py_field_lookup sg h PY_FIELD_COUNT py_field_names key =
     (let g_length = int (length (g h)) in
      if length key > length (salt1 h) then Inr (PY_FIELD_OTHER PY_FIELD_COUNT)
      else
        case py_field_loop sg h key 0 0 0 of
          None \<Rightarrow> Inr (PY_FIELD_OTHER PY_FIELD_COUNT)
        | Some (f1, f2) \<Rightarrow>
            if g_length = 0 then Inl (Fault DivisionByZero)
            else
              bind_f (arr_get (g h) (c_rem f1 g_length)) (\<lambda>a.
              bind_f (arr_get (g h) (c_rem f2 g_length)) (\<lambda>b.
                let i = c_rem (a + b) g_length
                in if i < PY_FIELD_COUNT
                   then bind_f (arr_get py_field_names i) (\<lambda>nm.
                          Inr (if key = map of_char nm then i else PY_FIELD_OTHER PY_FIELD_COUNT))
                   else Inr (PY_FIELD_OTHER PY_FIELD_COUNT))))"

text \<open>
  A well-formed table: \<^verbatim>\<open>g\<close> is not empty and its entries are not negative, the salts
  are ASCII and equally long, and the numbers are small enough for \<^verbatim>\<open>int\<close> arithmetic
  not to overflow.
\<close>

definition wf_hash :: "hash_info \<Rightarrow> bool" where
  "wf_hash h \<longleftrightarrow>
     g h \<noteq> [] \<and> (\<forall>x \<in> set (g h). 0 \<le> x \<and> x < 2 ^ 30) \<and>
     length (salt2 h) = length (salt1 h) \<and> length (salt1 h) < 2 ^ 15 \<and>
     (\<forall>c \<in> set (salt1 h) \<union> set (salt2 h). (of_char c :: nat) < 128)"

section \<open>The description of an element type\<close>

text \<open>
  The template is instantiated once per type of the schema.  What it reads of a type is
  kept in records: an attribute or a child of the type with its XML name, its Python name,
  the code of its XML name (\<^verbatim>\<open>ATTRIBUTE__name\<close>), the code of the Python name in
  \<^verbatim>\<open>py_field_names\<close> (\<^verbatim>\<open>PY_FIELD__name\<close>), the index of its field
  (\<^verbatim>\<open>FIELD__type__name\<close>) and the flags the template branches on.  The functions for
  attributes and for construction from Python are those of a type without base types:
  for a base type with fields the template's text is not C that compiles (the call in
  \<^verbatim>\<open>node_class_attr_end\<close> closes its parenthesis after the first argument, the one in
  \<^verbatim>\<open>node_class_new_set_kw_field\<close> passes variables that do not exist).
\<close>

datatype attr_type = T_string | T_integer | T_DoxBool | T_enumeration nat | T_char_enum string

record attr_ref =
  a_name :: string
  a_attribute :: int
  a_py_name :: string
  a_py_field :: int
  a_field :: nat
  a_type :: attr_type
  a_optional :: bool

record child_ref =
  c_name :: string
  c_py_name :: string
  c_py_field :: int
  c_field :: nat
  c_is_list :: bool
  c_min_items :: nat
  c_type :: nat

datatype other_attr_action = OtherAttr_ignore | OtherAttr_error

record node_class =
  nc_name :: string
  nc_is_list_e :: bool
  nc_field_count :: nat
  nc_attributes :: "attr_ref list"
  nc_children :: "child_ref list"
  nc_other_attr :: other_attr_action
  nc_has_children_or_content :: bool
  nc_has_children_or_tuple_content :: bool
  nc_allow_text :: bool

section \<open>Construction of a record from Python\<close>

definition raise_dup_field_error :: "string \<Rightarrow> py_exc" where
  "raise_dup_field_error name = TypeError (''received more than one value for '' @ quoted name)"

definition raise_too_many_args_count :: "string \<Rightarrow> nat \<Rightarrow> nat \<Rightarrow> py_exc" where
  "raise_too_many_args_count func given maximum =
     TypeError (func @ '' takes at most '' @ decimal maximum @ '' arguments, ''
                @ decimal given @ '' were given'')"

definition raise_invalid_keyword_arg :: "string \<Rightarrow> nat list \<Rightarrow> py_exc" where
  "raise_invalid_keyword_arg func key =
     TypeError (func @ '' does not take the keyword argument '' @ quoted (map char_of key))"

definition raise_needs_value_arg :: "string \<Rightarrow> string \<Rightarrow> py_exc" where
  "raise_needs_value_arg func key =
     TypeError (func @ '' called with missing argument: '' @ quoted key)"

definition raise_needs_pos_arg :: "string \<Rightarrow> nat \<Rightarrow> py_exc" where
  "raise_needs_pos_arg func i =
     TypeError (func @ '' called with missing positional argument #'' @ decimal (i + 1))"

text \<open>
  The elements a Python object yields when it is iterated, for the objects of the model;
  \<open>None\<close> when it is not iterable.
\<close>

fun py_elements :: "pyobj \<Rightarrow> pyobj option list option" where
  "py_elements (FrozenListObj fl) = Some (content fl)"
| "py_elements (NodeList c fl fs) = Some (content fl)"
| "py_elements (TaggedValue a b) = Some [a, b]"
| "py_elements (TupleItem c fs) = Some fs"
| "py_elements (PyList xs) = Some (map Some xs)"
| "py_elements (PyUnicode s) = Some (map (\<lambda>c. Some (PyUnicode [c])) s)"
| "py_elements _ = None"

definition frozen_list_fill ::
  "pyobj option frozen_list \<Rightarrow> pyobj \<Rightarrow> failure + pyobj option frozen_list" where
  "frozen_list_fill fl iterable =
     (case py_elements iterable of
        None \<Rightarrow> Inl (Raised (TypeError ''object is not iterable''))
      | Some xs \<Rightarrow>
          if length xs = 0 then Inr fl
          else Inr (fold (\<lambda>x l. frozen_list_push_object l x (length xs)) xs fl))"

text \<open>
  \<^verbatim>\<open>node_set_py_field\<close> and \<^verbatim>\<open>node_set_py_field_frozen_list\<close>: the result is the
  return value and the fields.
\<close>

definition node_set_py_field ::
  "pyobj option list \<Rightarrow> nat \<Rightarrow> pyobj \<Rightarrow> string \<Rightarrow> failure + (int \<times> pyobj option list)" where
  "node_set_py_field flds f v name =
     bind_f (arr_at flds f) (\<lambda>old.
       if old \<noteq> None then Inl (Raised (raise_dup_field_error name))
       else Inr (1, flds[f := Some v]))"

definition node_set_py_field_frozen_list ::
  "pyobj option list \<Rightarrow> nat \<Rightarrow> pyobj \<Rightarrow> string \<Rightarrow> failure + (int \<times> pyobj option list)" where
  "node_set_py_field_frozen_list flds f v name =
     bind_f (arr_at flds f) (\<lambda>old.
       if old \<noteq> None then Inl (Raised (raise_dup_field_error name))
       else
         case v of
           FrozenListObj l \<Rightarrow> Inr (1, flds[f := Some v])
         | NodeList c l fs \<Rightarrow> Inr (1, flds[f := Some v])
         | _ \<Rightarrow>
             bind_f (frozen_list_fill init_frozen_list v) (\<lambda>l.
               Inr (1, flds[f := Some (FrozenListObj l)])))"

text \<open>
  \<^verbatim>\<open>node_class_new_set_kw_field\<close>: the \<^verbatim>\<open>switch\<close> has one case per attribute and per
  child of the type, in that order, and \<^verbatim>\<open>default: return 0\<close>.
\<close>

fun kw_children ::
  "child_ref list \<Rightarrow> pyobj option list \<Rightarrow> int \<Rightarrow> pyobj \<Rightarrow> failure + (int \<times> pyobj option list)" where
  "kw_children [] flds field v = Inr (0, flds)"
| "kw_children (r # refs) flds field v =
     (if field = c_py_field r
      then (if c_is_list r then node_set_py_field_frozen_list flds (c_field r) v (c_py_name r)
            else node_set_py_field flds (c_field r) v (c_py_name r))
      else kw_children refs flds field v)"

fun kw_attributes ::
  "attr_ref list \<Rightarrow> child_ref list \<Rightarrow> pyobj option list \<Rightarrow> int \<Rightarrow> pyobj
   \<Rightarrow> failure + (int \<times> pyobj option list)" where
  "kw_attributes [] crefs flds field v = kw_children crefs flds field v"
| "kw_attributes (r # refs) crefs flds field v =
     (if field = a_py_field r then node_set_py_field flds (a_field r) v (a_py_name r)
      else kw_attributes refs crefs flds field v)"

definition node_class_new_set_kw_field ::
  "node_class \<Rightarrow> pyobj option list \<Rightarrow> int \<Rightarrow> pyobj \<Rightarrow> failure + (int \<times> pyobj option list)" where
  "node_class_new_set_kw_field T flds field v =
     kw_attributes (nc_attributes T) (nc_children T) flds field v"

text \<open>
  \<^verbatim>\<open>node_class_new_set_fields\<close>: the \<^verbatim>\<open>switch\<close> on the number of positional
  arguments falls through from its case to the first field.
\<close>

definition node_class_new_set_fields ::
  "node_class \<Rightarrow> pyobj option list \<Rightarrow> pyobj list \<Rightarrow> nat \<Rightarrow> pyobj option list" where
  "node_class_new_set_fields T flds args start_i =
     fold (\<lambda>j fs. fs[j := Some (args ! (j + start_i))])
       [0..<min (length args - start_i) (nc_field_count T)] flds"

fun new_fields_end_children ::
  "string \<Rightarrow> child_ref list \<Rightarrow> pyobj option list \<Rightarrow> failure + pyobj option list" where
  "new_fields_end_children func [] flds = Inr flds"
| "new_fields_end_children func (r # refs) flds =
     bind_f (arr_at flds (c_field r)) (\<lambda>old.
       if old = None then
         (if c_is_list r
          then new_fields_end_children func refs
                 (flds[c_field r := Some (FrozenListObj init_frozen_list)])
          else if c_min_items r = 0
          then new_fields_end_children func refs (flds[c_field r := Some Py_None])
          else Inl (Raised (raise_needs_value_arg func (c_py_name r))))
       else new_fields_end_children func refs flds)"

fun new_fields_end_attributes ::
  "string \<Rightarrow> attr_ref list \<Rightarrow> pyobj option list \<Rightarrow> failure + pyobj option list" where
  "new_fields_end_attributes func [] flds = Inr flds"
| "new_fields_end_attributes func (r # refs) flds =
     bind_f (arr_at flds (a_field r)) (\<lambda>old.
       if old = None then
         (if a_optional r
          then new_fields_end_attributes func refs (flds[a_field r := Some Py_None])
          else Inl (Raised (raise_needs_value_arg func (a_py_name r))))
       else new_fields_end_attributes func refs flds)"

definition node_class_new_fields_end ::
  "string \<Rightarrow> node_class \<Rightarrow> pyobj option list \<Rightarrow> failure + pyobj option list" where
  "node_class_new_fields_end func T flds =
     bind_f (new_fields_end_attributes func (nc_attributes T) flds)
       (new_fields_end_children func (nc_children T))"

text \<open>
  The loop over the keyword arguments in \<^verbatim>\<open>node_class_tp_new\<close>; \<open>lookup\<close> is
  \<^verbatim>\<open>py_field_lookup\<close> with its tables.
\<close>

fun tp_new_keywords ::
  "(nat list \<Rightarrow> failure + int) \<Rightarrow> string \<Rightarrow> node_class \<Rightarrow> pyobj option list
   \<Rightarrow> (nat list \<times> pyobj) list \<Rightarrow> failure + pyobj option list" where
  "tp_new_keywords lookup func T flds [] = Inr flds"
| "tp_new_keywords lookup func T flds ((key, v) # kwds) =
     bind_f (lookup key) (\<lambda>field.
     bind_f (node_class_new_set_kw_field T flds field v) (\<lambda>(r, flds').
       if r = 0 then Inl (Raised (raise_invalid_keyword_arg func key))
       else tp_new_keywords lookup func T flds' kwds))"

definition node_class_tp_new ::
  "(nat list \<Rightarrow> failure + int) \<Rightarrow> nat \<Rightarrow> node_class \<Rightarrow> pyobj list \<Rightarrow> (nat list \<times> pyobj) list
   \<Rightarrow> failure + pyobj" where
  "node_class_tp_new lookup class_index T args kwds =
     (let func_name = ''Node_'' @ nc_name T @ ''.__new__'';
          p_arg_count = length args;
          kw_arg_count = length kwds;
          maximum = nc_field_count T + (if nc_is_list_e T then 1 else 0)
      in if p_arg_count + kw_arg_count > maximum
         then Inl (Raised (raise_too_many_args_count func_name (p_arg_count + kw_arg_count) maximum))
         else if nc_is_list_e T \<and> p_arg_count < 1
         then Inl (Raised (raise_needs_pos_arg func_name 0))
         else
           bind_f (if nc_is_list_e T then frozen_list_fill init_frozen_list (args ! 0)
                   else Inr init_frozen_list) (\<lambda>base.
           bind_f (if nc_field_count T \<noteq> 0
                   then
                     bind_f (tp_new_keywords lookup func_name T
                               (node_class_new_set_fields T (replicate (nc_field_count T) None)
                                  args (if nc_is_list_e T then 1 else 0))
                               (if kw_arg_count \<noteq> 0 then kwds else []))
                       (node_class_new_fields_end func_name T)
                   else Inr []) (\<lambda>flds.
             Inr (if nc_is_list_e T then NodeList class_index base flds
                  else NodeTagonly class_index flds))))"


lemma c_rem_nonneg: "0 \<le> a \<Longrightarrow> c_rem a b = a mod \<bar>b\<bar>"
  by (cases "a = 0") (simp_all add: c_rem_def)

lemma c_char_nonneg:
  "\<not> sg \<or> (of_char c :: nat) < 128 \<Longrightarrow> 0 \<le> c_char sg c"
  by (auto simp: c_char_def)

lemma hash_loop_nonneg:
  assumes "\<forall>c \<in> set (salt1 h) \<union> set (salt2 h). (of_char c :: nat) < 128"
    and "length (salt2 h) = length (salt1 h)"
    and "\<forall>c \<in> set key. \<not> sg \<or> (of_char c :: nat) < 128"
    and "0 \<le> f1" "0 \<le> f2"
  shows "0 \<le> fst (hash_loop sg h key i f1 f2) \<and> 0 \<le> snd (hash_loop sg h key i f1 f2)"
  using assms
proof (induction key arbitrary: i f1 f2)
  case Nil
  then show ?case by simp
next
  case (Cons k key)
  show ?case
  proof (cases "i < length (salt1 h)")
    case True
    have s1: "0 \<le> c_char sg (salt1 h ! i)"
      using True Cons.prems(1) by (intro c_char_nonneg) (simp add: nth_mem)
    have s2: "0 \<le> c_char sg (salt2 h ! i)"
      using True Cons.prems(1,2) by (intro c_char_nonneg) (simp add: nth_mem)
    have k: "0 \<le> c_char sg k"
      using Cons.prems(3) by (intro c_char_nonneg) auto
    have "0 \<le> f1 + c_char sg (salt1 h ! i) * c_char sg k"
      and "0 \<le> f2 + c_char sg (salt2 h ! i) * c_char sg k"
      using s1 s2 k Cons.prems(4,5) by simp_all
    then show ?thesis
      using True Cons.IH [of "f1 + c_char sg (salt1 h ! i) * c_char sg k"
          "f2 + c_char sg (salt2 h ! i) * c_char sg k" "Suc i"] Cons.prems(1,2,3)
      by simp
  next
    case False
    then show ?thesis using Cons.prems by simp
  qed
qed

lemma hash_lookup_plain_keys:
  assumes wf: "wf_hash h"
    and key: "\<forall>c \<in> set key. \<not> sg \<or> (of_char c :: nat) < 128"
    and cnt: "count \<le> int (length names)"
  shows "hash_lookup sg h count names dflt key =
     (let n = int (length (g h));
          (f1, f2) = hash_loop sg h key 0 0 0;
          i = (g h ! nat (f1 mod n) + g h ! nat (f2 mod n)) mod n
      in Inr (if i < count \<and> names ! nat i = key then i else dflt))"
proof -
  obtain f1 f2 where f: "hash_loop sg h key 0 0 0 = (f1, f2)" by (cases "hash_loop sg h key 0 0 0")
  have nn: "0 \<le> f1" "0 \<le> f2"
    using hash_loop_nonneg [of h key sg 0 0 0] wf key f by (auto simp: wf_hash_def)
  define n where "n = int (length (g h))"
  have npos: "0 < n" using wf by (simp add: wf_hash_def n_def)
  have r1: "c_rem f1 n = f1 mod n" "c_rem f2 n = f2 mod n"
    using nn npos by (simp_all add: c_rem_nonneg)
  have i1: "0 \<le> f1 mod n" "f1 mod n < n" "0 \<le> f2 mod n" "f2 mod n < n"
    using npos by simp_all
  have in1: "nat (f1 mod n) < length (g h)" "nat (f2 mod n) < length (g h)"
    using i1 by (simp_all add: n_def)
  define a b where "a = g h ! nat (f1 mod n)" and "b = g h ! nat (f2 mod n)"
  have ab: "0 \<le> a" "0 \<le> b"
    using wf in1 by (auto simp: wf_hash_def a_def b_def)
  have r3: "c_rem (a + b) n = (a + b) mod n"
    using ab npos by (simp add: c_rem_nonneg)
  have i3: "(a + b) mod n < count \<Longrightarrow> nat ((a + b) mod n) < length names"
    using npos cnt pos_mod_sign [of n "a + b"] by linarith
  show ?thesis
    using f r1 r3 i1 in1 i3 npos cnt
    by (auto simp: hash_lookup_def Let_def bind_f_def arr_get_def n_def [symmetric]
        a_def [symmetric] b_def [symmetric])
qed

definition example_hash :: hash_info where
  "example_hash = \<lparr>salt1 = ''x'', salt2 = ''y'', g = [0, 0, 1]\<rparr>"

lemma example_hash_wf: "wf_hash example_hash"
  by (simp add: wf_hash_def example_hash_def)

lemma example_lookup_a: "hash_lookup True example_hash 1 [''a''] 2 ''a'' = Inr 0"
  by (simp add: hash_lookup_def example_hash_def c_char_def c_rem_def Let_def bind_f_def arr_get_def)

lemma example_lookup_b: "hash_lookup True example_hash 1 [''a''] 2 ''b'' = Inr 2"
  by (simp add: hash_lookup_def example_hash_def c_char_def c_rem_def Let_def bind_f_def arr_get_def)

text \<open>
  C1.  On keys whose bytes are ASCII (on any key when \<^verbatim>\<open>char\<close> is unsigned) the function
  does what the claim says, as \<open>hash_lookup_plain_keys\<close> shows.  Where \<^verbatim>\<open>char\<close> is
  signed, a byte above 127 is a negative factor, \<^verbatim>\<open>f2 % g_length\<close> is negative and
  \<^verbatim>\<open>g\<close> is read outside its bounds: here for the key of the two bytes of a
  UTF-8 encoded e with acute accent, with the table of \<open>example_hash\<close>, which resolves
  the name \<^verbatim>\<open>a\<close> to 0 as it should.  \<^verbatim>\<open>py_field_lookup\<close> returns
  \<^verbatim>\<open>PY_FIELD_OTHER\<close> for such a key; the macro has no such check.
\<close>

theorem hash_lookup_non_ascii_key:
  "hash_lookup True example_hash 1 [''a''] 2 [CHR 0xC3, CHR 0xA9] = Inl (Fault OutOfBounds)"
  by (simp add: hash_lookup_def example_hash_def c_char_def c_rem_def Let_def bind_f_def arr_get_def)

definition class_fields_ok :: "int \<Rightarrow> node_class \<Rightarrow> bool" where
  "class_fields_ok PY_FIELD_COUNT T \<longleftrightarrow>
     (\<forall>r \<in> set (nc_attributes T). 0 \<le> a_py_field r \<and> a_py_field r < PY_FIELD_COUNT) \<and>
     (\<forall>r \<in> set (nc_children T). 0 \<le> c_py_field r \<and> c_py_field r < PY_FIELD_COUNT)"

lemma py_field_loop_non_ascii:
  "\<exists>c \<in> set key. c > 127 \<Longrightarrow> py_field_loop sg h key i f1 f2 = None"
  by (induction key arbitrary: i f1 f2) auto

lemma py_field_lookup_other:
  assumes "length key > length (salt1 h) \<or> (\<exists>c \<in> set key. c > 127)"
  shows "py_field_lookup sg h n names key = Inr (PY_FIELD_OTHER n)"
proof (cases "length key > length (salt1 h)")
  case True
  then show ?thesis by (simp add: py_field_lookup_def Let_def)
next
  case False
  then have "\<exists>c \<in> set key. c > 127" using assms by simp
  then have "py_field_loop sg h key 0 0 0 = None" by (rule py_field_loop_non_ascii)
  then show ?thesis by (simp add: py_field_lookup_def Let_def)
qed

lemma kw_children_other:
  "\<forall>r \<in> set refs. c_py_field r \<noteq> field \<Longrightarrow> kw_children refs flds field v = Inr (0, flds)"
  by (induction refs) auto

lemma kw_attributes_other:
  "\<forall>r \<in> set refs. a_py_field r \<noteq> field \<Longrightarrow> \<forall>r \<in> set crefs. c_py_field r \<noteq> field \<Longrightarrow>
   kw_attributes refs crefs flds field v = Inr (0, flds)"
  by (induction refs) (auto simp: kw_children_other)

lemma set_kw_field_other:
  assumes "class_fields_ok n T"
  shows "node_class_new_set_kw_field T flds (PY_FIELD_OTHER n) v = Inr (0, flds)"
proof -
  have "\<forall>r \<in> set (nc_attributes T). a_py_field r \<noteq> PY_FIELD_OTHER n"
    and "\<forall>r \<in> set (nc_children T). c_py_field r \<noteq> PY_FIELD_OTHER n"
    using assms by (auto simp: class_fields_ok_def PY_FIELD_OTHER_def)
  then show ?thesis
    by (simp add: node_class_new_set_kw_field_def kw_attributes_other)
qed

lemma tp_new_keywords_rejected:
  assumes "class_fields_ok n T"
    and "(key, v) \<in> set kwds"
    and "lookup key = Inr (PY_FIELD_OTHER n)"
  shows "\<exists>e. tp_new_keywords lookup func T flds kwds = Inl e"
  using assms(2)
proof (induction kwds arbitrary: flds)
  case Nil
  then show ?case by simp
next
  case (Cons kv kwds)
  obtain k' v' where kv: "kv = (k', v')" by (cases kv)
  show ?case
  proof (cases "k' = key")
    case True
    then show ?thesis
      using kv assms(3) set_kw_field_other [OF assms(1)]
      by (simp add: bind_f_def)
  next
    case False
    then have "(key, v) \<in> set kwds" using Cons.prems kv by auto
    then have ih: "\<exists>e. tp_new_keywords lookup func T flds' kwds = Inl e" for flds'
      using Cons.IH by blast
    show ?thesis
      using ih kv
      by (auto simp: bind_f_def split: sum.splits prod.splits)
  qed
qed

lemma tp_new_rejected:
  assumes "class_fields_ok n T"
    and "(key, v) \<in> set kwds"
    and "lookup key = Inr (PY_FIELD_OTHER n)"
  shows "\<exists>e. node_class_tp_new lookup ci T args kwds = Inl e"
proof -
  have ne: "kwds \<noteq> []" using assms(2) by auto
  then have len: "0 < length kwds" by simp
  obtain e where e: "tp_new_keywords lookup (''Node_'' @ nc_name T @ ''.__new__'') T
      (node_class_new_set_fields T (replicate (nc_field_count T) None) args
         (if nc_is_list_e T then 1 else 0)) kwds = Inl e"
    using tp_new_keywords_rejected [where lookup = lookup, OF assms] by blast
  show ?thesis
  proof (cases "nc_field_count T = 0")
    case True
    have "Suc 0 < length args + length kwds" if "args \<noteq> []"
      using that len by (cases args) auto
    then show ?thesis
      using True len by (auto simp: node_class_tp_new_def Let_def)
  next
    case False
    then show ?thesis
      using e ne
      by (auto simp: node_class_tp_new_def Let_def bind_f_def split: sum.splits)
  qed
qed

text \<open>
  C10.  For a Python string key that is longer than the salt of the field-name hash, or
  that has a code point above 127, \<^verbatim>\<open>py_field_lookup\<close> returns \<^verbatim>\<open>PY_FIELD_OTHER\<close>,
  whatever the array \<^verbatim>\<open>g\<close> is (it is not read).  For a type whose fields have codes
  below \<^verbatim>\<open>PY_FIELD_COUNT\<close>, \<^verbatim>\<open>node_class_new_set_kw_field\<close> then returns 0 and leaves
  every field as it was, the loop over the keyword arguments stops at that key with the
  TypeError for an invalid keyword argument, and no call of \<^verbatim>\<open>node_class_tp_new\<close> with
  such a key among its keyword arguments returns an object.
\<close>

theorem py_field_lookup_rejects_key:
  assumes "length key > length (salt1 h) \<or> (\<exists>c \<in> set key. c > 127)"
    and "length (salt2 h) = length (salt1 h)"
    and "class_fields_ok n T"
  shows "py_field_lookup sg h n names key = Inr (PY_FIELD_OTHER n)
       \<and> node_class_new_set_kw_field T flds (PY_FIELD_OTHER n) v = Inr (0, flds)
       \<and> tp_new_keywords (py_field_lookup sg h n names) func T flds ((key, v) # kwds)
           = Inl (Raised (raise_invalid_keyword_arg func key))
       \<and> (\<forall>args kws ci. (key, v) \<in> set kws \<longrightarrow>
             (\<exists>e. node_class_tp_new (py_field_lookup sg h n names) ci T args kws = Inl e))"
proof -
  have l: "py_field_lookup sg h n names key = Inr (PY_FIELD_OTHER n)"
    using assms(1) by (rule py_field_lookup_other)
  have s: "node_class_new_set_kw_field T flds (PY_FIELD_OTHER n) v = Inr (0, flds)"
    using assms(3) by (rule set_kw_field_other)
  have k: "tp_new_keywords (py_field_lookup sg h n names) func T flds ((key, v) # kwds)
           = Inl (Raised (raise_invalid_keyword_arg func key))"
    using l s by (simp add: bind_f_def)
  have "\<exists>e. node_class_tp_new (py_field_lookup sg h n names) ci T args kws = Inl e"
    if "(key, v) \<in> set kws" for args kws ci
    using tp_new_rejected [where lookup = "py_field_lookup sg h n names", OF assms(3) that l] .
  then show ?thesis using l s k by blast
qed

definition example_class :: node_class where
  "example_class =
     \<lparr>nc_name = ''point'', nc_is_list_e = False, nc_field_count = 1,
      nc_attributes = [\<lparr>a_name = ''a'', a_attribute = 0, a_py_name = ''a'', a_py_field = 0,
                        a_field = 0, a_type = T_string, a_optional = False\<rparr>],
      nc_children = [], nc_other_attr = OtherAttr_ignore,
      nc_has_children_or_content = False, nc_has_children_or_tuple_content = False,
      nc_allow_text = False\<rparr>"

theorem py_field_lookup_rejects_key_witness:
  "(length [233 :: nat] > length (salt1 example_hash) \<or> (\<exists>c \<in> set [233 :: nat]. c > 127))
   \<and> length (salt2 example_hash) = length (salt1 example_hash)
   \<and> class_fields_ok 1 example_class
   \<and> py_field_lookup True example_hash 1 [''a''] [233] = Inr (PY_FIELD_OTHER 1)
   \<and> node_class_new_set_kw_field example_class [None] (PY_FIELD_OTHER 1) (PyLong 5)
       = Inr (0, [None])
   \<and> (\<exists>e. node_class_tp_new (py_field_lookup True example_hash 1 [''a'']) 6 example_class []
             [([233], PyLong 5)] = Inl e)"
proof -
  have h1: "length [233 :: nat] > length (salt1 example_hash) \<or> (\<exists>c \<in> set [233 :: nat]. c > 127)"
    by simp
  have h2: "length (salt2 example_hash) = length (salt1 example_hash)"
    by (simp add: example_hash_def)
  have h3: "class_fields_ok 1 example_class"
    by (simp add: class_fields_ok_def example_class_def)
  note t = py_field_lookup_rejects_key [OF h1 h2 h3, of True "[''a'']" "[None]" "PyLong 5"]
  have "(([233 :: nat], PyLong 5)) \<in> set [([233], PyLong 5)]" by simp
  then have "\<exists>e. node_class_tp_new (py_field_lookup True example_hash 1 [''a'']) 6 example_class []
             [([233], PyLong 5)] = Inl e"
    using t by blast
  then show ?thesis using h1 h2 h3 t by blast
qed

section \<open>Warnings, the callback stack and the leaf parsers\<close>

text \<open>
  What the functions below call and the file does not define: the lookups generated for
  the names of the schema, which can fail as \<open>hash_lookup\<close> can, and \<^verbatim>\<open>strtol\<close>
  (the number, the rest of the string at \<^verbatim>\<open>end\<close>, and whether \<^verbatim>\<open>errno\<close> is set).
\<close>

record env =
  attribute_lookup :: "string \<Rightarrow> failure + int"
  element_lookup :: "string \<Rightarrow> failure + int"
  enum_value_lookup :: "nat \<Rightarrow> string \<Rightarrow> failure + int"
  strtol :: "string \<Rightarrow> int \<times> string \<times> bool"

text \<open>
  \<^verbatim>\<open>set_parse_warning\<close> and \<^verbatim>\<open>SET_PARSE_WARNING_FMT\<close>: the warning is issued and the
  result is 0, or the filter makes it an exception and the result is \<^verbatim>\<open>-1\<close>.
\<close>

definition set_parse_warning :: "parse_state \<Rightarrow> string \<Rightarrow> failure + parse_state" where
  "set_parse_warning st msg =
     (if warn_is_error st then Inl (Raised (ParseWarning (lineno st) msg))
      else Inr (st\<lparr>warnings := warnings st @ [(lineno st, msg)]\<rparr>))"

definition warn_unexpected_attribute :: "parse_state \<Rightarrow> string \<Rightarrow> failure + parse_state" where
  "warn_unexpected_attribute st name = set_parse_warning st (''unexpected attribute '' @ quoted name)"

definition warn_duplicate_attribute :: "parse_state \<Rightarrow> string \<Rightarrow> failure + parse_state" where
  "warn_duplicate_attribute st name = set_parse_warning st (''duplicate attribute '' @ quoted name)"

definition raise_missing_attribute_error :: "parse_state \<Rightarrow> string \<Rightarrow> py_exc" where
  "raise_missing_attribute_error st name =
     set_parse_error_format st (''missing '' @ quoted name @ '' attribute'')"

definition raise_duplicate_element_error :: "parse_state \<Rightarrow> string \<Rightarrow> py_exc" where
  "raise_duplicate_element_error st name =
     set_parse_error_format st (quoted name @ '' cannot appear more than once in this context'')"

definition raise_missing_element_error :: "parse_state \<Rightarrow> string \<Rightarrow> py_exc" where
  "raise_missing_element_error st name =
     set_parse_error_format st (''missing '' @ quoted name @ '' child'')"

definition raise_empty_list_element_error :: "parse_state \<Rightarrow> string \<Rightarrow> py_exc" where
  "raise_empty_list_element_error st name =
     set_parse_error_format st (''at least one '' @ quoted name @ '' child is required'')"

definition raise_invalid_enum_error :: "parse_state \<Rightarrow> string \<Rightarrow> py_exc" where
  "raise_invalid_enum_error st v =
     set_parse_error_format st (quoted v @ '' is not one of the allowed enumeration values'')"

definition raise_invalid_char_enum_error :: "parse_state \<Rightarrow> char \<Rightarrow> string \<Rightarrow> py_exc" where
  "raise_invalid_char_enum_error st c allowed =
     set_parse_error_format st
       (quoted [c] @ '' is not one of the allowed character values; must be one of ''
        @ quoted allowed)"

text \<open>
  \<^verbatim>\<open>non_whitespace\<close>: the loop runs \<open>len\<close> times at most, so not at all for a negative
  \<open>len\<close>; the end of the string is the byte \<^verbatim>\<open>'\0'\<close>.
\<close>

fun non_whitespace_loop :: "string \<Rightarrow> nat \<Rightarrow> bool" where
  "non_whitespace_loop s 0 = False"
| "non_whitespace_loop [] (Suc n) = True"
| "non_whitespace_loop (c # s) (Suc n) =
     (if c \<in> {CHR '' '', CHR 0x09, CHR 0x0A, CHR 0x0D, CHR 0x0B} then non_whitespace_loop s n
      else True)"

definition non_whitespace :: "string \<Rightarrow> int \<Rightarrow> bool" where
  "non_whitespace s len = non_whitespace_loop s (nat len)"

definition parse_integer :: "env \<Rightarrow> parse_state \<Rightarrow> string \<Rightarrow> failure + int" where
  "parse_integer e st str =
     (case strtol e str of (v, end_ptr, errno_set) \<Rightarrow>
        if errno_set \<or> non_whitespace end_ptr (-1)
        then Inl (Raised (set_parse_error st ''cannot parse integer''))
        else Inr v)"

definition push_callbacks :: "parse_state \<Rightarrow> parse_callbacks \<Rightarrow> parse_state" where
  "push_callbacks st cb = st\<lparr>stack := cb # stack st\<rparr>"

definition append_str_obj :: "pyobj option \<Rightarrow> pyobj \<Rightarrow> failure + pyobj option" where
  "append_str_obj dest src =
     (case (dest, src) of
        (Some (PyUnicode a), PyUnicode b) \<Rightarrow> Inr (Some (PyUnicode (a @ b)))
      | _ \<Rightarrow> Inl (Fault AssertionFailure))"

text \<open>
  A function that starts an element takes the content of \<^verbatim>\<open>*dest\<close> and the address
  \<open>dest\<close>; its result is the return value, the state and the new content of
  \<^verbatim>\<open>*dest\<close>.
\<close>

fun unexpected_attributes :: "parse_state \<Rightarrow> (string \<times> string) list \<Rightarrow> failure + parse_state" where
  "unexpected_attributes st [] = Inr st"
| "unexpected_attributes st (a # attr) =
     bind_f (warn_unexpected_attribute st (fst a)) (\<lambda>st'. unexpected_attributes st' attr)"

definition node_start_string ::
  "parse_state \<Rightarrow> slot \<Rightarrow> pyobj option \<Rightarrow> (string \<times> string) list
   \<Rightarrow> failure + (int \<times> parse_state \<times> pyobj option)" where
  "node_start_string st dest dest_val attr =
     bind_f (unexpected_attributes st attr) (\<lambda>st'.
       Inr (1, push_callbacks st'
                 \<lparr>cb_value = Some dest, cs_call = None, t_call = Some Node_string_text,
                  f_call = Some Node_string_end\<rparr>,
            None))"

definition node_start_empty ::
  "parse_state \<Rightarrow> slot \<Rightarrow> pyobj option \<Rightarrow> (string \<times> string) list
   \<Rightarrow> failure + (int \<times> parse_state \<times> pyobj option)" where
  "node_start_empty st dest dest_val attr =
     bind_f (unexpected_attributes st attr) (\<lambda>st'.
       Inr (1, push_callbacks st'
                 \<lparr>cb_value = None, cs_call = None, t_call = None, f_call = None\<rparr>,
            Some Py_None))"

text \<open>The loop over the attributes in \<^verbatim>\<open>node_start_spType\<close>, with the variable \<open>c\<close>.\<close>

fun spType_attributes ::
  "env \<Rightarrow> parse_state \<Rightarrow> (string \<times> string) list \<Rightarrow> char \<Rightarrow> failure + (parse_state \<times> char)" where
  "spType_attributes e st [] c = Inr (st, c)"
| "spType_attributes e st (a # attr) c =
     bind_f (if fst a \<noteq> ''value'' then warn_unexpected_attribute st (fst a) else Inr st) (\<lambda>st'.
     bind_f (parse_integer e st' (snd a)) (\<lambda>v.
       if v < 0 \<or> v > 127
       then Inl (Raised (set_parse_error st' (quoted ''value'' @ '' must be between 0 and 127'')))
       else spType_attributes e st' attr (char_of v)))"

definition node_start_spType ::
  "env \<Rightarrow> parse_state \<Rightarrow> slot \<Rightarrow> pyobj option \<Rightarrow> (string \<times> string) list
   \<Rightarrow> failure + (int \<times> parse_state \<times> pyobj option)" where
  "node_start_spType e st dest dest_val attr =
     bind_f (spType_attributes e st attr (CHR '' '')) (\<lambda>(st', c).
     bind_f (if dest_val = None then Inr (Some (PyUnicode [c]))
             else append_str_obj dest_val (PyUnicode [c])) (\<lambda>dest_val'.
       Inr (1, push_callbacks st'
                 \<lparr>cb_value = None, cs_call = None, t_call = None, f_call = None\<rparr>,
            dest_val')))"


lemma parse_integer_state:
  "(parse_integer e st v = Inr k) = (parse_integer e st' v = Inr k)"
  by (auto simp: parse_integer_def split: prod.splits)

lemma spType_attributes_bad_value:
  assumes "(n, v) \<in> set attr"
    and "\<forall>k. parse_integer e st0 v = Inr k \<longrightarrow> k < 0 \<or> 127 < k"
  shows "\<exists>x. spType_attributes e st attr c = Inl x"
  using assms(1)
proof (induction attr arbitrary: st c)
  case Nil
  then show ?case by simp
next
  case (Cons a attr)
  show ?case
  proof (cases "a = (n, v)")
    case True
    have bad: "parse_integer e st' v = Inr k \<Longrightarrow> k < 0 \<or> 127 < k" for st' k
      using assms(2) parse_integer_state [of e st' v k st0] by blast
    show ?thesis
      using True bad
      by (auto simp: bind_f_def split: sum.splits)
  next
    case False
    then have "(n, v) \<in> set attr" using Cons.prems by auto
    then have ih: "\<exists>x. spType_attributes e st' attr c' = Inl x" for st' c'
      using Cons.IH by blast
    show ?thesis
      using ih by (auto simp: bind_f_def split: sum.splits)
  qed
qed

text \<open>
  C9.  \<^verbatim>\<open>node_start_spType\<close> does not require the attribute \<^verbatim>\<open>value\<close>: with no
  attribute at all it succeeds and stores a single space in an empty slot, or appends a
  space to the text already in the slot.  The conversion to an integer and the check of
  the range 0 to 127 apply to the value of every attribute: an attribute of any name
  whose value does not convert to an integer in that range makes the function fail, and
  an attribute with another name than \<^verbatim>\<open>value\<close> and a value in the range sets the
  character, after a warning.
\<close>

theorem spType_value_not_required:
  "node_start_spType e st dest None [] =
     Inr (1, push_callbacks st
               \<lparr>cb_value = None, cs_call = None, t_call = None, f_call = None\<rparr>,
          Some (PyUnicode '' ''))
   \<and> node_start_spType e st dest (Some (PyUnicode s)) [] =
     Inr (1, push_callbacks st
               \<lparr>cb_value = None, cs_call = None, t_call = None, f_call = None\<rparr>,
          Some (PyUnicode (s @ '' '')))
   \<and> ((n, v) \<in> set attr \<and> (\<forall>k. parse_integer e st v = Inr k \<longrightarrow> k < 0 \<or> 127 < k) \<longrightarrow>
        (\<exists>x. node_start_spType e st dest d attr = Inl x))
   \<and> (\<not> warn_is_error st \<and> n \<noteq> ''value'' \<and> parse_integer e st v = Inr k \<and> 0 \<le> k \<and> k \<le> 127 \<longrightarrow>
        node_start_spType e st dest None [(n, v)] =
          Inr (1, push_callbacks
                    (st\<lparr>warnings := warnings st @ [(lineno st, ''unexpected attribute '' @ quoted n)]\<rparr>)
                    \<lparr>cb_value = None, cs_call = None, t_call = None, f_call = None\<rparr>,
               Some (PyUnicode [char_of k])))"
proof (intro conjI impI)
  show "node_start_spType e st dest None [] =
     Inr (1, push_callbacks st
               \<lparr>cb_value = None, cs_call = None, t_call = None, f_call = None\<rparr>,
          Some (PyUnicode '' ''))"
    by (simp add: node_start_spType_def bind_f_def)
  show "node_start_spType e st dest (Some (PyUnicode s)) [] =
     Inr (1, push_callbacks st
               \<lparr>cb_value = None, cs_call = None, t_call = None, f_call = None\<rparr>,
          Some (PyUnicode (s @ '' '')))"
    by (simp add: node_start_spType_def bind_f_def append_str_obj_def)
next
  assume "(n, v) \<in> set attr \<and> (\<forall>k. parse_integer e st v = Inr k \<longrightarrow> k < 0 \<or> 127 < k)"
  then obtain x where "spType_attributes e st attr (CHR '' '') = Inl x"
    using spType_attributes_bad_value [of n v attr e st st] by blast
  then show "\<exists>x. node_start_spType e st dest d attr = Inl x"
    by (simp add: node_start_spType_def bind_f_def)
next
  assume a: "\<not> warn_is_error st \<and> n \<noteq> ''value'' \<and> parse_integer e st v = Inr k \<and> 0 \<le> k \<and> k \<le> 127"
  let ?st' = "st\<lparr>warnings := warnings st @ [(lineno st, ''unexpected attribute '' @ quoted n)]\<rparr>"
  have "parse_integer e ?st' v = Inr k"
    using a parse_integer_state [of e ?st' v k st] by simp
  then show "node_start_spType e st dest None [(n, v)] =
          Inr (1, push_callbacks ?st'
                    \<lparr>cb_value = None, cs_call = None, t_call = None, f_call = None\<rparr>,
               Some (PyUnicode [char_of k]))"
    using a
    by (simp add: node_start_spType_def bind_f_def warn_unexpected_attribute_def
        set_parse_warning_def)
qed

fun example_digits :: "string \<Rightarrow> int \<Rightarrow> int \<times> string" where
  "example_digits [] acc = (acc, [])"
| "example_digits (c # s) acc =
     (if 48 \<le> (of_char c :: nat) \<and> (of_char c :: nat) \<le> 57
      then example_digits s (acc * 10 + (int (of_char c) - 48))
      else (acc, c # s))"

definition example_env :: env where
  "example_env =
     \<lparr>attribute_lookup = (\<lambda>s. Inr (find_str_in_array s [''x'', ''y'', ''label''])),
      element_lookup = (\<lambda>s. Inr (find_str_in_array s [''doc'', ''item''])),
      enum_value_lookup = (\<lambda>t s. Inr (find_str_in_array s [''public'', ''private''])),
      strtol = (\<lambda>s. case example_digits s 0 of (v, r) \<Rightarrow> (v, r, False))\<rparr>"

definition example_state :: parse_state where
  "example_state =
     \<lparr>stack = [], ignore_level = 0, lineno = 3, xml_error = None, stopped = False,
      warn_is_error = False, warnings = [], exc = None, r_obj = None\<rparr>"

theorem spType_value_not_required_witness:
  "node_start_spType example_env example_state [] None [] =
     Inr (1, push_callbacks example_state
               \<lparr>cb_value = None, cs_call = None, t_call = None, f_call = None\<rparr>,
          Some (PyUnicode '' ''))
   \<and> (\<exists>x. node_start_spType example_env example_state [] None [(''other'', ''300'')] = Inl x)
   \<and> node_start_spType example_env example_state [] None [(''other'', ''65'')] =
     Inr (1, push_callbacks
               (example_state\<lparr>warnings := [(3, ''unexpected attribute '' @ quoted ''other'')]\<rparr>)
               \<lparr>cb_value = None, cs_call = None, t_call = None, f_call = None\<rparr>,
          Some (PyUnicode ''A''))"
proof -
  have p300: "parse_integer example_env example_state ''300'' = Inr 300"
    by (simp add: parse_integer_def example_env_def non_whitespace_def)
  have p65: "parse_integer example_env example_state ''65'' = Inr 65"
    by (simp add: parse_integer_def example_env_def non_whitespace_def)
  have ch: "char_of (65 :: int) = CHR ''A''"
    by code_simp
  note t1 = spType_value_not_required
    [of example_env example_state "[]" "[]" "''other''" "''300''" "[(''other'', ''300'')]" None 0]
  note t2 = spType_value_not_required
    [of example_env example_state "[]" "[]" "''other''" "''65''" "[]" None 65]
  have c1: "node_start_spType example_env example_state [] None [] =
     Inr (1, push_callbacks example_state
               \<lparr>cb_value = None, cs_call = None, t_call = None, f_call = None\<rparr>,
          Some (PyUnicode '' ''))"
    using t1 by blast
  have c3: "\<exists>x. node_start_spType example_env example_state [] None [(''other'', ''300'')] = Inl x"
    using t1 p300 by simp
  have c4: "node_start_spType example_env example_state [] None [(''other'', ''65'')] =
     Inr (1, push_callbacks
               (example_state\<lparr>warnings := [(3, ''unexpected attribute '' @ quoted ''other'')]\<rparr>)
               \<lparr>cb_value = None, cs_call = None, t_call = None, f_call = None\<rparr>,
          Some (PyUnicode ''A''))"
    using t2 p65 ch by (simp add: example_state_def)
  show ?thesis using c1 c3 c4 by blast
qed

section \<open>Attributes of an element\<close>

text \<open>
  The functions that set a field from an attribute take the content of the field and
  return the state and the new content.
\<close>

definition set_string_attribute ::
  "parse_state \<Rightarrow> pyobj option \<Rightarrow> string \<times> string \<Rightarrow> failure + (parse_state \<times> pyobj option)" where
  "set_string_attribute st field attr =
     (if field \<noteq> None
      then bind_f (warn_duplicate_attribute st (fst attr)) (\<lambda>st'. Inr (st', field))
      else Inr (st, Some (PyUnicode (snd attr))))"

definition set_integer_attribute ::
  "env \<Rightarrow> parse_state \<Rightarrow> pyobj option \<Rightarrow> string \<times> string
   \<Rightarrow> failure + (parse_state \<times> pyobj option)" where
  "set_integer_attribute e st field attr =
     (if field \<noteq> None
      then bind_f (warn_duplicate_attribute st (fst attr)) (\<lambda>st'. Inr (st', field))
      else bind_f (parse_integer e st (snd attr)) (\<lambda>v. Inr (st, Some (PyLong v))))"

definition set_DoxBool_attribute ::
  "parse_state \<Rightarrow> pyobj option \<Rightarrow> string \<times> string \<Rightarrow> failure + (parse_state \<times> pyobj option)" where
  "set_DoxBool_attribute st field attr =
     (if field \<noteq> None
      then bind_f (warn_duplicate_attribute st (fst attr)) (\<lambda>st'. Inr (st', field))
      else if snd attr = ''yes'' then Inr (st, Some (Py_Bool True))
      else if snd attr = ''no'' then Inr (st, Some (Py_Bool False))
      else Inl (Raised (set_parse_error_format st
             (quoted (fst attr) @ '' must be '' @ quoted ''yes'' @ '' or '' @ quoted ''no''))))"

text \<open>
  \<^verbatim>\<open>parse__type\<close> for an enumeration and for an enumeration of characters, whose
  allowed characters are \<open>allowed\<close>.
\<close>

definition parse_enumeration :: "env \<Rightarrow> parse_state \<Rightarrow> nat \<Rightarrow> string \<Rightarrow> failure + pyobj" where
  "parse_enumeration e st T str =
     bind_f (enum_value_lookup e T str) (\<lambda>i.
       if i < 0 then Inl (Raised (raise_invalid_enum_error st str))
       else Inr (EnumValue T (nat i)))"

definition parse_char_enum :: "parse_state \<Rightarrow> string \<Rightarrow> string \<Rightarrow> failure + pyobj" where
  "parse_char_enum st allowed str =
     (case str of
        [c] \<Rightarrow>
          if c \<in> set allowed then Inr (PyUnicode [c])
          else Inl (Raised (raise_invalid_char_enum_error st c allowed))
      | _ \<Rightarrow> Inl (Raised (set_parse_error st ''value must be a single character'')))"

text \<open>The macro \<^verbatim>\<open>handle_attr\<close> for the attribute \<open>r\<close>.\<close>

definition handle_attr ::
  "env \<Rightarrow> parse_state \<Rightarrow> attr_ref \<Rightarrow> pyobj option \<Rightarrow> string \<times> string
   \<Rightarrow> failure + (parse_state \<times> pyobj option)" where
  "handle_attr e st r field attr =
     (case a_type r of
        T_string \<Rightarrow> set_string_attribute st field attr
      | T_integer \<Rightarrow> set_integer_attribute e st field attr
      | T_DoxBool \<Rightarrow> set_DoxBool_attribute st field attr
      | T_enumeration T \<Rightarrow>
          if field \<noteq> None
          then bind_f (warn_duplicate_attribute st (a_py_name r)) (\<lambda>st'. Inr (st', field))
          else bind_f (parse_enumeration e st T (snd attr)) (\<lambda>v. Inr (st, Some v))
      | T_char_enum allowed \<Rightarrow>
          if field \<noteq> None
          then bind_f (warn_duplicate_attribute st (a_py_name r)) (\<lambda>st'. Inr (st', field))
          else bind_f (parse_char_enum st allowed (snd attr)) (\<lambda>v. Inr (st, Some v)))"

text \<open>\<^verbatim>\<open>node_class_attr\<close>: the \<^verbatim>\<open>switch\<close> over the attributes of the type.\<close>

fun node_class_attr ::
  "env \<Rightarrow> parse_state \<Rightarrow> attr_ref list \<Rightarrow> pyobj option list \<Rightarrow> int \<Rightarrow> string \<times> string
   \<Rightarrow> failure + (int \<times> parse_state \<times> pyobj option list)" where
  "node_class_attr e st [] flds attr_index attr = Inr (0, st, flds)"
| "node_class_attr e st (r # refs) flds attr_index attr =
     (if attr_index = a_attribute r
      then bind_f (arr_at flds (a_field r)) (\<lambda>old.
           bind_f (handle_attr e st r old attr) (\<lambda>(st', v).
             Inr (1, st', flds[a_field r := v])))
      else node_class_attr e st refs flds attr_index attr)"

text \<open>
  The loop over the attributes in \<^verbatim>\<open>node_class_start\<close>: its body for one attribute,
  and the loop.
\<close>

definition start_attribute ::
  "env \<Rightarrow> node_class \<Rightarrow> parse_state \<Rightarrow> pyobj option list \<Rightarrow> string \<times> string
   \<Rightarrow> failure + (parse_state \<times> pyobj option list)" where
  "start_attribute e T st flds a =
     (if nc_attributes T \<noteq> []
      then bind_f (attribute_lookup e (fst a)) (\<lambda>attr_index.
           bind_f (node_class_attr e st (nc_attributes T) flds attr_index a) (\<lambda>(r, st', flds').
           bind_f (if nc_other_attr T = OtherAttr_error \<and> r = 0
                   then warn_unexpected_attribute st' (fst a) else Inr st') (\<lambda>st''.
             Inr (st'', flds'))))
      else bind_f (warn_unexpected_attribute st (fst a)) (\<lambda>st'. Inr (st', flds)))"

fun start_attributes ::
  "env \<Rightarrow> node_class \<Rightarrow> parse_state \<Rightarrow> pyobj option list \<Rightarrow> (string \<times> string) list
   \<Rightarrow> failure + (parse_state \<times> pyobj option list)" where
  "start_attributes e T st flds [] = Inr (st, flds)"
| "start_attributes e T st flds (a # attr) =
     bind_f (start_attribute e T st flds a) (\<lambda>(st', flds'). start_attributes e T st' flds' attr)"

text \<open>\<^verbatim>\<open>node_class_attr_end\<close>, over the attributes of the type in their order.\<close>

fun node_class_attr_end ::
  "parse_state \<Rightarrow> attr_ref list \<Rightarrow> pyobj option list \<Rightarrow> failure + pyobj option list" where
  "node_class_attr_end st [] flds = Inr flds"
| "node_class_attr_end st (r # refs) flds =
     bind_f (arr_at flds (a_field r)) (\<lambda>old.
       if old = None then
         (if a_optional r then node_class_attr_end st refs (flds[a_field r := Some Py_None])
          else Inl (Raised (raise_missing_attribute_error st (a_name r))))
       else node_class_attr_end st refs flds)"

text \<open>
  \<^verbatim>\<open>node_class_start\<close>: the node is stored in \<^verbatim>\<open>*dest\<close> first and its fields are then
  set in place; the third component of the result is the node as the function leaves it.
\<close>

definition node_class_start ::
  "env \<Rightarrow> node_class \<Rightarrow> nat \<Rightarrow> parse_state \<Rightarrow> slot \<Rightarrow> (string \<times> string) list
   \<Rightarrow> failure + (int \<times> parse_state \<times> pyobj option)" where
  "node_class_start e T class_index st dest attr =
     (let flds0 = replicate (nc_field_count T) None;
          flds1 = fold (\<lambda>r fs. if c_is_list r
                                then fs[c_field r := Some (FrozenListObj init_frozen_list)]
                                else fs) (nc_children T) flds0
      in bind_f (if nc_attributes T \<noteq> [] \<or> nc_other_attr T = OtherAttr_error
                 then start_attributes e T st flds1 attr else Inr (st, flds1)) (\<lambda>(st1, flds2).
         bind_f (if nc_attributes T \<noteq> [] then node_class_attr_end st1 (nc_attributes T) flds2
                 else Inr flds2) (\<lambda>flds3.
           Inr (1,
                push_callbacks st1
                  \<lparr>cb_value = Some dest,
                   cs_call = (if nc_has_children_or_content T
                              then Some (Node_class_child_start class_index) else None),
                   t_call = (if nc_allow_text T then Some Node_list_common_text else None),
                   f_call = (if nc_has_children_or_tuple_content T
                             then Some (Node_class_finish class_index) else None)\<rparr>,
                Some (if nc_is_list_e T then NodeList class_index init_frozen_list flds3
                      else NodeTagonly class_index flds3)))))"

section \<open>The end of an element\<close>

text \<open>
  The children of a type for \<^verbatim>\<open>node_class_finish_fields\<close>: the base types that have
  children, each with the offset of its fields in the fields of the type
  (\<^verbatim>\<open>BASE_FIELD_OFFSET__type__base\<close>), and the children of the type itself.
\<close>

datatype class_children =
  ClassChildren (cc_bases: "(nat \<times> class_children) list") (cc_children: "child_ref list")

text \<open>The checks of \<^verbatim>\<open>node_class_finish_fields\<close> for the children of one type.\<close>

fun finish_children ::
  "parse_state \<Rightarrow> child_ref list \<Rightarrow> nat \<Rightarrow> pyobj option list \<Rightarrow> failure + pyobj option list" where
  "finish_children st [] off flds = Inr flds"
| "finish_children st (r # refs) off flds =
     bind_f (arr_at flds (off + c_field r)) (\<lambda>old.
       if c_min_items r \<noteq> 0 then
         (if c_is_list r then
            (case old of
               Some (FrozenListObj fl) \<Rightarrow>
                 if size_fl fl < 1
                 then Inl (Raised (raise_empty_list_element_error st (c_name r)))
                 else finish_children st refs off flds
             | _ \<Rightarrow> Inl (Fault AssertionFailure))
          else if old = None then Inl (Raised (raise_missing_element_error st (c_name r)))
          else finish_children st refs off flds)
       else if \<not> c_is_list r \<and> old = None
       then finish_children st refs off (flds[off + c_field r := Some Py_None])
       else finish_children st refs off flds)"

fun node_class_finish_fields ::
  "parse_state \<Rightarrow> class_children \<Rightarrow> nat \<Rightarrow> pyobj option list \<Rightarrow> failure + pyobj option list"
and finish_bases ::
  "parse_state \<Rightarrow> (nat \<times> class_children) list \<Rightarrow> nat \<Rightarrow> pyobj option list
   \<Rightarrow> failure + pyobj option list" where
  "node_class_finish_fields st (ClassChildren bs cs) off flds =
     bind_f (finish_bases st bs off flds) (finish_children st cs off)"
| "finish_bases st [] off flds = Inr flds"
| "finish_bases st (b # bs) off flds =
     bind_f (node_class_finish_fields st (snd b) (off + fst b) flds) (finish_bases st bs off)"


text \<open>
  The attribute the function reports: the first one, in the order of the type, that is
  required and whose field is not set.  The fields it leaves: every field of an attribute
  that was not set holds \<^verbatim>\<open>Py_None\<close>.
\<close>

definition attr_missing :: "pyobj option list \<Rightarrow> attr_ref \<Rightarrow> bool" where
  "attr_missing flds r \<longleftrightarrow> \<not> a_optional r \<and> flds ! a_field r = None"

definition default_absent :: "nat list \<Rightarrow> pyobj option list \<Rightarrow> pyobj option list" where
  "default_absent idxs flds =
     map (\<lambda>i. if flds ! i = None \<and> i \<in> set idxs then Some Py_None else flds ! i) [0..<length flds]"

definition attr_refs_ok :: "attr_ref list \<Rightarrow> pyobj option list \<Rightarrow> bool" where
  "attr_refs_ok refs flds \<longleftrightarrow>
     distinct (map a_field refs) \<and> (\<forall>r \<in> set refs. a_field r < length flds)"

lemma default_absent_Nil: "default_absent [] flds = flds"
  by (simp add: default_absent_def map_nth)

lemma default_absent_set:
  assumes "i < length flds" "flds ! i \<noteq> None"
  shows "default_absent (i # idxs) flds = default_absent idxs flds"
  using assms by (auto simp: default_absent_def)

lemma default_absent_unset:
  assumes "i < length flds" "flds ! i = None"
  shows "default_absent idxs (flds[i := Some Py_None]) = default_absent (i # idxs) flds"
  using assms by (auto simp: default_absent_def nth_list_update intro!: nth_equalityI)

lemma attr_end_closed:
  assumes "attr_refs_ok refs flds"
  shows "node_class_attr_end st refs flds =
     (case find (attr_missing flds) refs of
        Some r0 \<Rightarrow> Inl (Raised (raise_missing_attribute_error st (a_name r0)))
      | None \<Rightarrow> Inr (default_absent (map a_field refs) flds))"
  using assms
proof (induction refs arbitrary: flds)
  case Nil
  then show ?case by (simp add: default_absent_Nil)
next
  case (Cons r refs)
  have inr: "a_field r < length flds"
    and dist: "a_field r \<notin> a_field ` set refs"
    and ok': "attr_refs_ok refs flds"
    using Cons.prems by (auto simp: attr_refs_ok_def)
  show ?case
  proof (cases "flds ! a_field r = None")
    case unset: True
    show ?thesis
    proof (cases "a_optional r")
      case True
      let ?flds' = "flds[a_field r := Some Py_None]"
      have ok'': "attr_refs_ok refs ?flds'"
        using ok' by (simp add: attr_refs_ok_def)
      have same: "attr_missing ?flds' q = attr_missing flds q" if "q \<in> set refs" for q
      proof -
        have "a_field q \<in> a_field ` set refs" using that by (rule imageI)
        then have "a_field q \<noteq> a_field r" using dist by metis
        then show ?thesis by (simp add: attr_missing_def)
      qed
      have feq: "find (attr_missing ?flds') refs = find (attr_missing flds) refs"
        by (rule find_cong) (simp_all add: same)
      have step: "node_class_attr_end st (r # refs) flds = node_class_attr_end st refs ?flds'"
        using True unset inr by (simp add: bind_f_def arr_at_def)
      have nm: "\<not> attr_missing flds r"
        using True by (simp add: attr_missing_def)
      show ?thesis
        unfolding step
        using Cons.IH [OF ok''] feq nm default_absent_unset [OF inr unset]
        by (simp split: option.splits)
    next
      case False
      then have "attr_missing flds r"
        using unset by (simp add: attr_missing_def)
      then show ?thesis
        using False unset inr by (simp add: bind_f_def arr_at_def)
    qed
  next
    case False
    have step: "node_class_attr_end st (r # refs) flds = node_class_attr_end st refs flds"
      using False inr by (auto simp: bind_f_def arr_at_def)
    have nm: "\<not> attr_missing flds r"
      using False by (simp add: attr_missing_def)
    show ?thesis
      unfolding step
      using Cons.IH [OF ok'] nm default_absent_set [OF inr False]
      by (simp split: option.splits)
  qed
qed

text \<open>
  The children of a type and of its base types in the order in which
  \<^verbatim>\<open>node_class_finish_fields\<close> checks them, each with the index of its field in the
  fields of the type.
\<close>

fun flat_children :: "class_children \<Rightarrow> nat \<Rightarrow> child_ref list"
and flat_bases :: "(nat \<times> class_children) list \<Rightarrow> nat \<Rightarrow> child_ref list" where
  "flat_children (ClassChildren bs cs) off =
     flat_bases bs off @ map (\<lambda>r. r\<lparr>c_field := off + c_field r\<rparr>) cs"
| "flat_bases [] off = []"
| "flat_bases (b # bs) off = flat_children (snd b) (off + fst b) @ flat_bases bs off"

definition child_violated :: "pyobj option list \<Rightarrow> child_ref \<Rightarrow> bool" where
  "child_violated flds r \<longleftrightarrow>
     c_min_items r \<noteq> 0 \<and>
     (if c_is_list r
      then (case flds ! c_field r of Some (FrozenListObj fl) \<Rightarrow> size_fl fl < 1 | _ \<Rightarrow> False)
      else flds ! c_field r = None)"

definition child_defaulted :: "child_ref \<Rightarrow> bool" where
  "child_defaulted r \<longleftrightarrow> c_min_items r = 0 \<and> \<not> c_is_list r"

definition children_ok :: "child_ref list \<Rightarrow> pyobj option list \<Rightarrow> bool" where
  "children_ok refs flds \<longleftrightarrow>
     distinct (map c_field refs) \<and> (\<forall>r \<in> set refs. c_field r < length flds) \<and>
     (\<forall>r \<in> set refs. c_is_list r \<and> c_min_items r \<noteq> 0 \<longrightarrow>
        (\<exists>fl. flds ! c_field r = Some (FrozenListObj fl)))"

lemma finish_children_append:
  "finish_children st (xs @ ys) off flds =
     bind_f (finish_children st xs off flds) (finish_children st ys off)"
proof (induction xs arbitrary: flds)
  case Nil
  then show ?case by (simp add: bind_f_def)
next
  case (Cons r xs)
  show ?case
    by (simp add: Cons.IH bind_f_def
        split: sum.splits option.splits pyobj.splits)
qed

lemma finish_children_shift:
  "finish_children st (map (\<lambda>r. r\<lparr>c_field := off + c_field r\<rparr>) cs) 0 flds =
     finish_children st cs off flds"
proof (induction cs arbitrary: flds)
  case Nil
  then show ?case by simp
next
  case (Cons r cs)
  show ?case
    by (auto simp: Cons.IH bind_f_def arr_at_def split: option.splits pyobj.splits)
qed

lemma finish_fields_flat:
  "node_class_finish_fields st T off flds = finish_children st (flat_children T off) 0 flds"
  "finish_bases st bs off flds = finish_children st (flat_bases bs off) 0 flds"
proof (induction st T off flds and st bs off flds
    rule: node_class_finish_fields_finish_bases.induct)
  case (1 st bs cs off flds)
  show ?case
    using 1
    by (simp add: finish_children_append finish_children_shift bind_f_def split: sum.splits)
next
  case (2 st off flds)
  show ?case by simp
next
  case (3 st b bs off flds)
  show ?case
    using 3
    by (simp add: finish_children_append bind_f_def split: sum.splits)
qed

definition child_error :: "parse_state \<Rightarrow> child_ref \<Rightarrow> py_exc" where
  "child_error st r =
     ParseError
       (Some (if c_is_list r then ''at least one '' @ quoted (c_name r) @ '' child is required''
              else ''missing '' @ quoted (c_name r) @ '' child''))
       (Some (lineno st))"

lemma finish_children_closed:
  assumes "children_ok refs flds"
  shows "finish_children st refs 0 flds =
     (case find (child_violated flds) refs of
        Some r0 \<Rightarrow> Inl (Raised (child_error st r0))
      | None \<Rightarrow> Inr (default_absent (map c_field (filter child_defaulted refs)) flds))"
  using assms
proof (induction refs arbitrary: flds)
  case Nil
  then show ?case by (simp add: default_absent_Nil)
next
  case (Cons r refs)
  have inr: "c_field r < length flds"
    and dist: "c_field r \<notin> c_field ` set refs"
    and ok': "children_ok refs flds"
    using Cons.prems by (auto simp: children_ok_def)
  show ?case
  proof (cases "child_violated flds r")
    case True
    then have "finish_children st (r # refs) 0 flds = Inl (Raised (child_error st r))"
      using inr
      by (auto simp: child_violated_def child_error_def bind_f_def arr_at_def
          raise_empty_list_element_error_def raise_missing_element_error_def
          set_parse_error_format_def
          split: option.splits pyobj.splits if_splits)
    then show ?thesis using True by simp
  next
    case nv: False
    show ?thesis
    proof (cases "child_defaulted r \<and> flds ! c_field r = None")
      case True
      let ?flds' = "flds[c_field r := Some Py_None]"
      have ne: "c_field q \<noteq> c_field r" if "q \<in> set refs" for q
      proof -
        have "c_field q \<in> c_field ` set refs" using that by (rule imageI)
        then show ?thesis using dist by metis
      qed
      have upd: "?flds' ! c_field q = flds ! c_field q" if "q \<in> set refs" for q
        using ne [OF that] by simp
      have ok'': "children_ok refs ?flds'"
        using ok' upd by (simp add: children_ok_def)
      have same: "child_violated ?flds' q = child_violated flds q" if "q \<in> set refs" for q
        using upd [OF that] by (simp add: child_violated_def)
      have feq: "find (child_violated ?flds') refs = find (child_violated flds) refs"
        by (rule find_cong) (simp_all add: same)
      have step: "finish_children st (r # refs) 0 flds = finish_children st refs 0 ?flds'"
        using True inr by (auto simp: child_defaulted_def bind_f_def arr_at_def)
      have unset: "flds ! c_field r = None" using True by simp
      show ?thesis
        unfolding step
        using Cons.IH [OF ok''] feq nv True default_absent_unset [OF inr unset]
        by (simp split: option.splits)
    next
      case False
      have step: "finish_children st (r # refs) 0 flds = finish_children st refs 0 flds"
        using False nv inr Cons.prems
        by (auto simp: child_defaulted_def child_violated_def children_ok_def
            bind_f_def arr_at_def split: option.splits pyobj.splits)
      have dflt: "default_absent (map c_field (filter child_defaulted (r # refs))) flds =
          default_absent (map c_field (filter child_defaulted refs)) flds"
        using False inr default_absent_set [OF inr] by auto
      show ?thesis
        unfolding step dflt
        using Cons.IH [OF ok'] nv
        by (simp split: option.splits)
    qed
  qed
qed

text \<open>
  C5.  \<^verbatim>\<open>node_class_attr_end\<close> fails with the ParseError that names the first required
  attribute whose field is not set, when there is one; otherwise it succeeds and every
  attribute field that was not set (all of them optional) holds \<^verbatim>\<open>Py_None\<close>.
  \<^verbatim>\<open>node_class_finish_fields\<close>, over the children of the type and of its base types,
  fails at the first required child that is missing, with the error
  \<^verbatim>\<open>missing "name" child\<close> for a single child that is not set and with the different
  error \<^verbatim>\<open>at least one "name" child is required\<close> for a list that is empty; otherwise
  it succeeds and every optional single child that was not set holds \<^verbatim>\<open>Py_None\<close>.
\<close>

theorem required_and_optional_at_end:
  assumes "attr_refs_ok refs aflds" and "children_ok (flat_children T 0) flds"
  shows "node_class_attr_end st refs aflds =
          (case find (attr_missing aflds) refs of
             Some r0 \<Rightarrow>
               Inl (Raised (ParseError (Some (''missing '' @ quoted (a_name r0) @ '' attribute''))
                              (Some (lineno st))))
           | None \<Rightarrow> Inr (default_absent (map a_field refs) aflds))
       \<and> node_class_finish_fields st T 0 flds =
          (case find (child_violated flds) (flat_children T 0) of
             Some r0 \<Rightarrow> Inl (Raised (child_error st r0))
           | None \<Rightarrow>
               Inr (default_absent (map c_field (filter child_defaulted (flat_children T 0))) flds))
       \<and> (\<forall>n m. raise_empty_list_element_error st n \<noteq> raise_missing_element_error st m)"
proof -
  have a: "node_class_attr_end st refs aflds =
          (case find (attr_missing aflds) refs of
             Some r0 \<Rightarrow>
               Inl (Raised (ParseError (Some (''missing '' @ quoted (a_name r0) @ '' attribute''))
                              (Some (lineno st))))
           | None \<Rightarrow> Inr (default_absent (map a_field refs) aflds))"
    using attr_end_closed [OF assms(1), of st]
    by (simp add: raise_missing_attribute_error_def set_parse_error_format_def
        split: option.splits)
  have c: "node_class_finish_fields st T 0 flds =
          (case find (child_violated flds) (flat_children T 0) of
             Some r0 \<Rightarrow> Inl (Raised (child_error st r0))
           | None \<Rightarrow>
               Inr (default_absent (map c_field (filter child_defaulted (flat_children T 0))) flds))"
    using finish_children_closed [OF assms(2), of st] by (simp add: finish_fields_flat(1))
  have d: "raise_empty_list_element_error st n \<noteq> raise_missing_element_error st m" for n m
    by (simp add: raise_empty_list_element_error_def raise_missing_element_error_def
        set_parse_error_format_def)
  show ?thesis using a c d by blast
qed

definition example_attrs :: "attr_ref list" where
  "example_attrs =
     [\<lparr>a_name = ''x'', a_attribute = 0, a_py_name = ''x'', a_py_field = 0, a_field = 0,
       a_type = T_integer, a_optional = False\<rparr>,
      \<lparr>a_name = ''label'', a_attribute = 2, a_py_name = ''label'', a_py_field = 1, a_field = 1,
       a_type = T_string, a_optional = True\<rparr>]"

definition example_children :: class_children where
  "example_children =
     ClassChildren
       [(0, ClassChildren []
              [\<lparr>c_name = ''title'', c_py_name = ''title'', c_py_field = 2, c_field = 0,
                c_is_list = False, c_min_items = 1, c_type = 0\<rparr>])]
       [\<lparr>c_name = ''item'', c_py_name = ''item'', c_py_field = 3, c_field = 1,
         c_is_list = True, c_min_items = 1, c_type = 0\<rparr>,
        \<lparr>c_name = ''note'', c_py_name = ''note'', c_py_field = 4, c_field = 2,
         c_is_list = False, c_min_items = 0, c_type = 0\<rparr>]"

theorem required_and_optional_at_end_witness:
  "attr_refs_ok example_attrs [None, None]
   \<and> node_class_attr_end example_state example_attrs [None, None] =
       Inl (Raised (ParseError (Some (''missing '' @ quoted ''x'' @ '' attribute'')) (Some 3)))
   \<and> attr_refs_ok example_attrs [Some (PyLong 3), None]
   \<and> node_class_attr_end example_state example_attrs [Some (PyLong 3), None] =
       Inr [Some (PyLong 3), Some Py_None]
   \<and> children_ok (flat_children example_children 0)
        [None, Some (FrozenListObj (FrozenList 0 0 [])), None]
   \<and> node_class_finish_fields example_state example_children 0
        [None, Some (FrozenListObj (FrozenList 0 0 [])), None] =
       Inl (Raised (ParseError (Some (''missing '' @ quoted ''title'' @ '' child'')) (Some 3)))
   \<and> node_class_finish_fields example_state example_children 0
        [Some (PyUnicode ''t''), Some (FrozenListObj (FrozenList 0 0 [])), None] =
       Inl (Raised (ParseError
         (Some (''at least one '' @ quoted ''item'' @ '' child is required'')) (Some 3)))
   \<and> node_class_finish_fields example_state example_children 0
        [Some (PyUnicode ''t''),
         Some (FrozenListObj (FrozenList 1 5 [Some (PyUnicode ''i'')])), None] =
       Inr [Some (PyUnicode ''t''),
            Some (FrozenListObj (FrozenList 1 5 [Some (PyUnicode ''i'')])), Some Py_None]"
proof -
  let ?f1 = "[None, Some (FrozenListObj (FrozenList 0 0 [])), None]"
  let ?f2 = "[Some (PyUnicode ''t''), Some (FrozenListObj (FrozenList 0 0 [])), None]"
  let ?f3 = "[Some (PyUnicode ''t''),
         Some (FrozenListObj (FrozenList 1 5 [Some (PyUnicode ''i'')])), None]"
  have up3: "[0..<3] = [0, 1, 2]" and up2: "[0..<2] = [0, 1]"
    by (simp_all add: upt_rec)
  have a1: "attr_refs_ok example_attrs [None, None]"
    and a2: "attr_refs_ok example_attrs [Some (PyLong 3), None]"
    by (simp_all add: attr_refs_ok_def example_attrs_def)
  have c1: "children_ok (flat_children example_children 0) ?f1"
    and c2: "children_ok (flat_children example_children 0) ?f2"
    and c3: "children_ok (flat_children example_children 0) ?f3"
    by (simp_all add: children_ok_def example_children_def)
  note t1 = required_and_optional_at_end [OF a1 c1, of example_state]
  note t2 = required_and_optional_at_end [OF a2 c2, of example_state]
  note t3 = required_and_optional_at_end [OF a2 c3, of example_state]
  have r1: "node_class_attr_end example_state example_attrs [None, None] =
       Inl (Raised (ParseError (Some (''missing '' @ quoted ''x'' @ '' attribute'')) (Some 3)))"
    using t1 by (simp add: example_attrs_def attr_missing_def example_state_def)
  have r2: "node_class_attr_end example_state example_attrs [Some (PyLong 3), None] =
       Inr [Some (PyLong 3), Some Py_None]"
    using t2 by (simp add: example_attrs_def attr_missing_def default_absent_def up2)
  have r3: "node_class_finish_fields example_state example_children 0 ?f1 =
       Inl (Raised (ParseError (Some (''missing '' @ quoted ''title'' @ '' child'')) (Some 3)))"
    using t1
    by (simp add: example_children_def child_violated_def child_error_def example_state_def)
  have r4: "node_class_finish_fields example_state example_children 0 ?f2 =
       Inl (Raised (ParseError
         (Some (''at least one '' @ quoted ''item'' @ '' child is required'')) (Some 3)))"
    using t2
    by (simp add: example_children_def child_violated_def child_error_def example_state_def)
  have r5: "node_class_finish_fields example_state example_children 0 ?f3 = Inr
       [Some (PyUnicode ''t''),
        Some (FrozenListObj (FrozenList 1 5 [Some (PyUnicode ''i'')])), Some Py_None]"
    using t3
    by (simp add: example_children_def child_violated_def child_defaulted_def
        default_absent_def up3)
  show ?thesis using a1 a2 c1 r1 r2 r3 r4 r5 by blast
qed


text \<open>
  The name in the warning for a repeated attribute: the name in the document for the
  built-in types, the Python name of the field for the others.
\<close>

definition dup_name :: "attr_ref \<Rightarrow> string" where
  "dup_name r =
     (case a_type r of
        T_enumeration T \<Rightarrow> a_py_name r
      | T_char_enum allowed \<Rightarrow> a_py_name r
      | _ \<Rightarrow> a_name r)"

definition dup_warning :: "parse_state \<Rightarrow> attr_ref \<Rightarrow> int \<times> string" where
  "dup_warning st r = (lineno st, ''duplicate attribute '' @ quoted (dup_name r))"

text \<open>
  The attributes of a type as the loop expects them: the lookup resolves the name of an
  attribute, and no other string, to its code; codes, fields and names are distinct.
\<close>

definition attributes_ok :: "env \<Rightarrow> attr_ref list \<Rightarrow> pyobj option list \<Rightarrow> bool" where
  "attributes_ok e refs flds \<longleftrightarrow>
     refs \<noteq> [] \<and> distinct (map a_attribute refs) \<and> distinct (map a_field refs) \<and>
     distinct (map dup_name refs) \<and> (\<forall>r \<in> set refs. a_field r < length flds) \<and>
     (\<forall>r \<in> set refs. \<forall>s. (attribute_lookup e s = Inr (a_attribute r)) = (s = a_name r))"

lemma node_class_attr_miss:
  "\<forall>q \<in> set refs. a_attribute q \<noteq> idx \<Longrightarrow> node_class_attr e st refs flds idx a = Inr (0, st, flds)"
  by (induction refs) auto

lemma node_class_attr_hit:
  assumes "distinct (map a_attribute refs)" "q \<in> set refs"
  shows "node_class_attr e st refs flds (a_attribute q) a =
     bind_f (arr_at flds (a_field q)) (\<lambda>old.
     bind_f (handle_attr e st q old a) (\<lambda>(st', v). Inr (1, st', flds[a_field q := v])))"
  using assms
proof (induction refs)
  case Nil
  then show ?case by simp
next
  case (Cons r refs)
  show ?case
  proof (cases "q = r")
    case True
    then show ?thesis by simp
  next
    case False
    then have q: "q \<in> set refs" using Cons.prems by simp
    then have "a_attribute q \<in> a_attribute ` set refs" by (rule imageI)
    then have "a_attribute q \<noteq> a_attribute r" using Cons.prems(1) by auto
    then show ?thesis using Cons.IH q Cons.prems(1) by simp
  qed
qed

lemma handle_attr_dup:
  assumes "old \<noteq> None" "\<not> warn_is_error st"
  shows "handle_attr e st q old a =
     Inr (st\<lparr>warnings := warnings st @
            [(lineno st, ''duplicate attribute '' @
               quoted (case a_type q of T_enumeration T \<Rightarrow> a_py_name q
                       | T_char_enum allowed \<Rightarrow> a_py_name q | _ \<Rightarrow> fst a))]\<rparr>, old)"
  using assms
  by (cases "a_type q")
     (simp_all add: handle_attr_def set_string_attribute_def set_integer_attribute_def
        set_DoxBool_attribute_def warn_duplicate_attribute_def set_parse_warning_def bind_f_def)

lemma handle_attr_first:
  assumes "handle_attr e st q None a = Inr (st1, v)"
  shows "st1 = st \<and> v \<noteq> None \<and> handle_attr e st2 q None a = Inr (st2, v)"
  using assms
  by (cases "a_type q")
     (auto simp: handle_attr_def set_string_attribute_def set_integer_attribute_def
        set_DoxBool_attribute_def parse_integer_def parse_enumeration_def parse_char_enum_def
        bind_f_def
        split: if_splits sum.splits prod.splits list.splits)

lemma distinct_map_eq:
  "distinct (map f xs) \<Longrightarrow> x \<in> set xs \<Longrightarrow> y \<in> set xs \<Longrightarrow> f x = f y \<Longrightarrow> x = y"
  by (meson distinct_map inj_on_def)

lemma start_attribute_effect:
  assumes ok: "attributes_ok e (nc_attributes T) flds"
    and pol: "\<not> warn_is_error st"
    and run: "start_attribute e T st flds a = Inr (st1, flds1)"
    and r: "r \<in> set (nc_attributes T)"
  shows "(lineno st1 = lineno st \<and> warn_is_error st1 = warn_is_error st \<and>
         length flds1 = length flds) \<and>
       (fst a = a_name r \<longrightarrow> flds ! a_field r \<noteq> None \<longrightarrow>
         flds1 = flds \<and> warnings st1 = warnings st @ [dup_warning st r]) \<and>
       (fst a = a_name r \<longrightarrow> flds ! a_field r = None \<longrightarrow>
         st1 = st \<and> flds1 ! a_field r \<noteq> None \<and>
         handle_attr e st r None a = Inr (st, flds1 ! a_field r)) \<and>
       (fst a \<noteq> a_name r \<longrightarrow>
         flds1 ! a_field r = flds ! a_field r \<and>
         (\<exists>ws. warnings st1 = warnings st @ ws \<and> dup_warning st r \<notin> set ws))"
proof -
  let ?refs = "nc_attributes T"
  have ne: "?refs \<noteq> []" and dA: "distinct (map a_attribute ?refs)"
    and dF: "distinct (map a_field ?refs)" and dN: "distinct (map dup_name ?refs)"
    and inr: "\<And>q. q \<in> set ?refs \<Longrightarrow> a_field q < length flds"
    and ex: "\<And>q s. q \<in> set ?refs \<Longrightarrow>
               (attribute_lookup e s = Inr (a_attribute q)) = (s = a_name q)"
    using ok by (auto simp: attributes_ok_def)
  obtain idx where idx: "attribute_lookup e (fst a) = Inr idx"
    using run ne by (cases "attribute_lookup e (fst a)") (auto simp: start_attribute_def bind_f_def)
  obtain rr st' flds' where nca: "node_class_attr e st ?refs flds idx a = Inr (rr, st', flds')"
    using run ne idx
    by (cases "node_class_attr e st ?refs flds idx a")
       (auto simp: start_attribute_def bind_f_def)
  have fl1: "flds1 = flds'"
    using run ne idx nca by (auto simp: start_attribute_def bind_f_def split: if_splits sum.splits)
  have st1: "(if nc_other_attr T = OtherAttr_error \<and> rr = 0
              then warn_unexpected_attribute st' (fst a) else Inr st') = Inr st1"
    using run ne idx nca by (auto simp: start_attribute_def bind_f_def split: if_splits sum.splits)
  show ?thesis
  proof (cases "\<exists>q \<in> set ?refs. a_attribute q = idx")
    case True
    then obtain q where q: "q \<in> set ?refs" "a_attribute q = idx" by blast
    have name: "fst a = a_name q" using ex [OF q(1)] idx q(2) by simp
    have hit: "bind_f (handle_attr e st q (flds ! a_field q) a)
                 (\<lambda>(st', v). Inr (1, st', flds[a_field q := v])) = Inr (rr, st', flds')"
      using nca node_class_attr_hit [OF dA q(1), of e st flds a] q(2) inr [OF q(1)]
      by (simp add: bind_f_def arr_at_def)
    then obtain v where h: "handle_attr e st q (flds ! a_field q) a = Inr (st', v)"
      and rr: "rr = 1" and fl: "flds' = flds[a_field q := v]"
      by (auto simp: bind_f_def split: sum.splits)
    have st1': "st1 = st'" using st1 rr by simp
    have dq: "dup_name q = (case a_type q of T_enumeration T \<Rightarrow> a_py_name q
                       | T_char_enum allowed \<Rightarrow> a_py_name q | _ \<Rightarrow> fst a)"
      using name by (simp add: dup_name_def split: attr_type.splits)
    have same: "q = r" if "fst a = a_name r"
    proof -
      have "attribute_lookup e (fst a) = Inr (a_attribute r)" using ex [OF r] that by simp
      then have "a_attribute q = a_attribute r" using idx q(2) by simp
      then show ?thesis using distinct_map_eq [OF dA q(1) r] by simp
    qed
    show ?thesis
    proof (cases "flds ! a_field q = None")
      case unset: True
      have hf: "st' = st \<and> v \<noteq> None \<and> handle_attr e st q None a = Inr (st, v)"
        using handle_attr_first [of e st q a st' v st] h unset by simp
      have other: "flds1 ! a_field r = flds ! a_field r" if "fst a \<noteq> a_name r"
      proof -
        have "q \<noteq> r" using that name by auto
        then have "a_field q \<noteq> a_field r" using distinct_map_eq [OF dF q(1) r] by auto
        then show ?thesis using fl fl1 by simp
      qed
      show ?thesis
        using hf st1' fl fl1 unset same other inr [OF q(1)] by auto
    next
      case set: False
      have hd: "st' = st\<lparr>warnings := warnings st @ [dup_warning st q]\<rparr> \<and> v = flds ! a_field q"
        using handle_attr_dup [OF set pol, of e q a] h dq by (simp add: dup_warning_def)
      have fl': "flds' = flds" using fl hd by simp
      have other: "dup_warning st r \<noteq> dup_warning st q" if "fst a \<noteq> a_name r"
      proof -
        have "q \<noteq> r" using that name by auto
        then have "dup_name q \<noteq> dup_name r" using distinct_map_eq [OF dN q(1) r] by auto
        then show ?thesis by (simp add: dup_warning_def quoted_def)
      qed
      show ?thesis
        using hd st1' fl' fl1 set same other by auto
    qed
  next
    case False
    then have miss: "node_class_attr e st ?refs flds idx a = Inr (0, st, flds)"
      by (intro node_class_attr_miss) blast
    then have eqs: "rr = 0" "st' = st" "flds' = flds" using nca by simp_all
    have notr: "fst a \<noteq> a_name r"
    proof
      assume "fst a = a_name r"
      then have "attribute_lookup e (fst a) = Inr (a_attribute r)" using ex [OF r] by simp
      then show False using idx False r by auto
    qed
    have w: "st1 = st \<or>
        st1 = st\<lparr>warnings := warnings st @ [(lineno st, ''unexpected attribute '' @ quoted (fst a))]\<rparr>"
      using st1 eqs pol
      by (auto simp: warn_unexpected_attribute_def set_parse_warning_def split: if_splits)
    have diff: "dup_warning st r \<noteq> (lineno st, ''unexpected attribute '' @ quoted (fst a))"
      by (simp add: dup_warning_def)
    show ?thesis
      using w notr diff fl1 eqs by auto
  qed
qed

definition occurrences :: "attr_ref \<Rightarrow> (string \<times> string) list \<Rightarrow> (string \<times> string) list" where
  "occurrences r attrs = filter (\<lambda>a. fst a = a_name r) attrs"

lemma start_attributes_effect:
  assumes ok: "attributes_ok e (nc_attributes T) flds"
    and pol: "\<not> warn_is_error st"
    and run: "start_attributes e T st flds attrs = Inr (st', flds')"
    and r: "r \<in> set (nc_attributes T)"
  shows "\<exists>ws. warnings st' = warnings st @ ws \<and>
      (flds ! a_field r \<noteq> None \<longrightarrow>
         flds' ! a_field r = flds ! a_field r \<and>
         count_list ws (dup_warning st r) = length (occurrences r attrs)) \<and>
      (flds ! a_field r = None \<longrightarrow>
         (case occurrences r attrs of
            [] \<Rightarrow> flds' ! a_field r = None \<and> count_list ws (dup_warning st r) = 0
          | a1 # others \<Rightarrow>
              flds' ! a_field r \<noteq> None \<and>
              handle_attr e st r None a1 = Inr (st, flds' ! a_field r) \<and>
              count_list ws (dup_warning st r) = length others))"
  using ok pol run
proof (induction attrs arbitrary: st flds)
  case Nil
  then show ?case by (simp add: occurrences_def)
next
  case (Cons a attrs)
  obtain st1 flds1 where body: "start_attribute e T st flds a = Inr (st1, flds1)"
    and rest: "start_attributes e T st1 flds1 attrs = Inr (st', flds')"
    using Cons.prems(3) by (auto simp: bind_f_def split: sum.splits)
  note eff = start_attribute_effect [OF Cons.prems(1,2) body r]
  have ln: "lineno st1 = lineno st" and pol1: "\<not> warn_is_error st1"
    and len: "length flds1 = length flds"
    using eff Cons.prems(2) by auto
  have ok1: "attributes_ok e (nc_attributes T) flds1"
    using Cons.prems(1) len by (simp add: attributes_ok_def)
  have dw: "dup_warning st1 r = dup_warning st r"
    using ln by (simp add: dup_warning_def)
  from Cons.IH [OF ok1 pol1 rest]
  obtain ws where ih: "warnings st' = warnings st1 @ ws \<and>
      (flds1 ! a_field r \<noteq> None \<longrightarrow>
         flds' ! a_field r = flds1 ! a_field r \<and>
         count_list ws (dup_warning st1 r) = length (occurrences r attrs)) \<and>
      (flds1 ! a_field r = None \<longrightarrow>
         (case occurrences r attrs of
            [] \<Rightarrow> flds' ! a_field r = None \<and> count_list ws (dup_warning st1 r) = 0
          | a1 # others \<Rightarrow>
              flds' ! a_field r \<noteq> None \<and>
              handle_attr e st1 r None a1 = Inr (st1, flds' ! a_field r) \<and>
              count_list ws (dup_warning st1 r) = length others))"
    ..
  note ih' = ih [unfolded dw]
  have ws: "warnings st' = warnings st1 @ ws"
    and ih_set: "flds1 ! a_field r \<noteq> None \<Longrightarrow>
         flds' ! a_field r = flds1 ! a_field r \<and>
         count_list ws (dup_warning st r) = length (occurrences r attrs)"
    and ih_unset: "flds1 ! a_field r = None \<Longrightarrow>
         (case occurrences r attrs of
            [] \<Rightarrow> flds' ! a_field r = None \<and> count_list ws (dup_warning st r) = 0
          | a1 # others \<Rightarrow>
              flds' ! a_field r \<noteq> None \<and>
              handle_attr e st1 r None a1 = Inr (st1, flds' ! a_field r) \<and>
              count_list ws (dup_warning st r) = length others)"
    using ih' by simp_all
  show ?case
  proof (cases "fst a = a_name r")
    case occ: True
    have occs: "occurrences r (a # attrs) = a # occurrences r attrs"
      using occ by (simp add: occurrences_def)
    show ?thesis
    proof (cases "flds ! a_field r = None")
      case True
      then have f: "st1 = st" "flds1 ! a_field r \<noteq> None"
        "handle_attr e st r None a = Inr (st, flds1 ! a_field r)"
        using eff occ by auto
      have "warnings st' = warnings st @ ws" using ws f(1) by simp
      moreover have "flds' ! a_field r \<noteq> None"
        "handle_attr e st r None a = Inr (st, flds' ! a_field r)"
        "count_list ws (dup_warning st r) = length (occurrences r attrs)"
        using ih_set [OF f(2)] f by simp_all
      ultimately show ?thesis
        using True occs by (intro exI [of _ ws]) auto
    next
      case False
      then have f: "flds1 = flds" "warnings st1 = warnings st @ [dup_warning st r]"
        using eff occ by auto
      have s1: "flds1 ! a_field r \<noteq> None" using f False by simp
      have "warnings st' = warnings st @ (dup_warning st r # ws)" using ws f(2) by simp
      moreover have "flds' ! a_field r = flds ! a_field r"
        "count_list (dup_warning st r # ws) (dup_warning st r)
           = length (occurrences r (a # attrs))"
        using ih_set [OF s1] f(1) occs by simp_all
      ultimately show ?thesis
        using False by (intro exI [of _ "dup_warning st r # ws"]) auto
    qed
  next
    case other: False
    have occs: "occurrences r (a # attrs) = occurrences r attrs"
      using other by (simp add: occurrences_def)
    obtain ws1 where f: "flds1 ! a_field r = flds ! a_field r"
      "warnings st1 = warnings st @ ws1" "dup_warning st r \<notin> set ws1"
      using eff other by auto
    have c0: "count_list (ws1 @ ws) (dup_warning st r) = count_list ws (dup_warning st r)"
      using f(3) by (simp add: count_list_0_iff)
    have tot: "warnings st' = warnings st @ (ws1 @ ws)" using ws f(2) by simp
    show ?thesis
    proof (cases "flds ! a_field r = None")
      case True
      then have u: "flds1 ! a_field r = None" using f by simp
      show ?thesis
      proof (cases "occurrences r attrs")
        case Nil
        then have "flds' ! a_field r = None" "count_list ws (dup_warning st r) = 0"
          using ih_unset [OF u] by simp_all
        then show ?thesis
          using True tot c0 occs Nil by (intro exI [of _ "ws1 @ ws"]) auto
      next
        case (Cons a1 others)
        then have h: "flds' ! a_field r \<noteq> None"
          "handle_attr e st1 r None a1 = Inr (st1, flds' ! a_field r)"
          "count_list ws (dup_warning st r) = length others"
          using ih_unset [OF u] by simp_all
        have "handle_attr e st r None a1 = Inr (st, flds' ! a_field r)"
          using handle_attr_first [OF h(2), of st] by simp
        then show ?thesis
          using True tot c0 occs Cons h(1,3) by (intro exI [of _ "ws1 @ ws"]) auto
      qed
    next
      case False
      then have s1: "flds1 ! a_field r \<noteq> None" using f by simp
      have "flds' ! a_field r = flds ! a_field r"
        "count_list ws (dup_warning st r) = length (occurrences r attrs)"
        using ih_set [OF s1] f(1) by simp_all
      then show ?thesis
        using False tot c0 occs by (intro exI [of _ "ws1 @ ws"]) auto
    qed
  qed
qed

text \<open>
  C6.  Under the default policy (a warning is not an exception), when the loop over the
  attributes of an element start returns, for every attribute \<open>r\<close> of the type that
  occurs in the element (its first occurrence \<open>a1\<close>, its later ones \<open>others\<close>): the
  field of \<open>r\<close> holds the value that \<^verbatim>\<open>handle_attr\<close> converts from \<open>a1\<close>, and among
  the warnings issued by the loop the duplicate-attribute warning of \<open>r\<close> occurs once per
  later occurrence, \<open>length others\<close> times.
\<close>

theorem duplicate_attribute_keeps_first:
  assumes "attributes_ok e (nc_attributes T) flds"
    and "\<not> warn_is_error st"
    and "start_attributes e T st flds attrs = Inr (st', flds')"
    and "r \<in> set (nc_attributes T)"
    and "flds ! a_field r = None"
    and "occurrences r attrs = a1 # others"
  shows "flds' ! a_field r \<noteq> None
       \<and> handle_attr e st r None a1 = Inr (st, flds' ! a_field r)
       \<and> (\<exists>ws. warnings st' = warnings st @ ws \<and>
                count_list ws (dup_warning st r) = length others)"
  using start_attributes_effect [OF assms(1-4)] assms(5,6) by auto

definition example_point :: node_class where
  "example_point =
     \<lparr>nc_name = ''point'', nc_is_list_e = False, nc_field_count = 2,
      nc_attributes = example_attrs, nc_children = [], nc_other_attr = OtherAttr_ignore,
      nc_has_children_or_content = False, nc_has_children_or_tuple_content = False,
      nc_allow_text = False\<rparr>"

lemma example_attributes_ok: "attributes_ok example_env example_attrs [None, None]"
  by (auto simp: attributes_ok_def example_attrs_def example_env_def dup_name_def
      find_str_in_array_def)

lemma example_start_attributes:
  "start_attributes example_env example_point example_state [None, None]
     [(''x'', ''3''), (''label'', ''a''), (''x'', ''4''), (''x'', ''zz'')] =
   Inr (example_state\<lparr>warnings :=
          [(3, ''duplicate attribute '' @ quoted ''x''),
           (3, ''duplicate attribute '' @ quoted ''x'')]\<rparr>,
        [Some (PyLong 3), Some (PyUnicode ''a'')])"
  by (simp add: start_attribute_def example_point_def example_attrs_def example_env_def
      example_state_def find_str_in_array_def bind_f_def arr_at_def handle_attr_def
      set_string_attribute_def set_integer_attribute_def parse_integer_def non_whitespace_def
      warn_duplicate_attribute_def set_parse_warning_def)

theorem duplicate_attribute_keeps_first_witness:
  "attributes_ok example_env (nc_attributes example_point) [None, None]
   \<and> \<not> warn_is_error example_state
   \<and> start_attributes example_env example_point example_state [None, None]
        [(''x'', ''3''), (''label'', ''a''), (''x'', ''4''), (''x'', ''zz'')] =
       Inr (example_state\<lparr>warnings :=
              [(3, ''duplicate attribute '' @ quoted ''x''),
               (3, ''duplicate attribute '' @ quoted ''x'')]\<rparr>,
            [Some (PyLong 3), Some (PyUnicode ''a'')])
   \<and> occurrences (hd example_attrs)
        [(''x'', ''3''), (''label'', ''a''), (''x'', ''4''), (''x'', ''zz'')] =
       (''x'', ''3'') # [(''x'', ''4''), (''x'', ''zz'')]
   \<and> handle_attr example_env example_state (hd example_attrs) None (''x'', ''3'') =
       Inr (example_state, Some (PyLong 3))
   \<and> (\<exists>ws. [(3, ''duplicate attribute '' @ quoted ''x''),
             (3, ''duplicate attribute '' @ quoted ''x'')] = ws \<and>
            count_list ws (dup_warning example_state (hd example_attrs)) = 2)"
proof -
  let ?attrs = "[(''x'', ''3''), (''label'', ''a''), (''x'', ''4''), (''x'', ''zz'')]"
  have h1: "attributes_ok example_env (nc_attributes example_point) [None, None]"
    using example_attributes_ok by (simp add: example_point_def)
  have h2: "\<not> warn_is_error example_state"
    by (simp add: example_state_def)
  have h4: "hd example_attrs \<in> set (nc_attributes example_point)"
    by (simp add: example_point_def example_attrs_def)
  have h5: "[None, None] ! a_field (hd example_attrs) = None"
    by (simp add: example_attrs_def)
  have h6: "occurrences (hd example_attrs) ?attrs = (''x'', ''3'') # [(''x'', ''4''), (''x'', ''zz'')]"
    by (simp add: occurrences_def example_attrs_def)
  note t = duplicate_attribute_keeps_first [OF h1 h2 example_start_attributes h4 h5 h6]
  have c1: "handle_attr example_env example_state (hd example_attrs) None (''x'', ''3'') =
       Inr (example_state, Some (PyLong 3))"
    using t by (simp add: example_attrs_def)
  have c2: "\<exists>ws. [(3, ''duplicate attribute '' @ quoted ''x''),
             (3, ''duplicate attribute '' @ quoted ''x'')] = ws \<and>
            count_list ws (dup_warning example_state (hd example_attrs)) = 2"
    using t by (simp add: example_state_def)
  show ?thesis
    using h1 h2 example_start_attributes h6 c1 c2 by blast
qed

section \<open>The handlers registered with expat\<close>

text \<open>
  The functions behind the function pointers of a frame are generated from the schema;
  the handlers get them as a record.  A callback that returns a negative number has set
  an exception: that is \<open>Inl\<close>; otherwise the result is the number and the state.
\<close>

record handlers =
  call_cs :: "child_start_callback \<Rightarrow> parse_state \<Rightarrow> string \<Rightarrow> (string \<times> string) list
              \<Rightarrow> failure + (int \<times> parse_state)"
  call_t :: "text_callback \<Rightarrow> parse_state \<Rightarrow> string \<Rightarrow> failure + parse_state"
  call_f :: "finish_callback \<Rightarrow> parse_state \<Rightarrow> failure + parse_state"

definition INT_MAX :: int where
  "INT_MAX = 2 ^ 31 - 1"

text \<open>
  \<^verbatim>\<open>XML_StopParser(state->parser, XML_FALSE)\<close> after a callback has failed: the
  exception is the error indicator.  The state is the one before the callback.
\<close>

definition stop_parser :: "parse_state \<Rightarrow> py_exc \<Rightarrow> parse_state" where
  "stop_parser st e = st\<lparr>stopped := True, exc := Some e\<rparr>"

definition pop_callbacks :: "parse_state \<Rightarrow> parse_state" where
  "pop_callbacks st = st\<lparr>stack := tl (stack st)\<rparr>"

definition unexpected_element :: "parse_state \<Rightarrow> string \<Rightarrow> fault + parse_state" where
  "unexpected_element st name =
     (case set_parse_warning st (''unexpected element '' @ quoted name) of
        Inl (Fault f) \<Rightarrow> Inl f
      | Inl (Raised e) \<Rightarrow> Inr (stop_parser st e)
      | Inr st' \<Rightarrow> Inr (st'\<lparr>ignore_level := 1\<rparr>))"

definition start_element ::
  "handlers \<Rightarrow> parse_state \<Rightarrow> string \<Rightarrow> (string \<times> string) list \<Rightarrow> fault + parse_state" where
  "start_element h st name attrs =
     (case stack st of
        [] \<Rightarrow> Inl AssertionFailure
      | pc # below \<Rightarrow>
          if ignore_level st \<noteq> 0 then
            (if ignore_level st = INT_MAX then Inl SignedOverflow
             else Inr (st\<lparr>ignore_level := ignore_level st + 1\<rparr>))
          else
            case cs_call pc of
              None \<Rightarrow> unexpected_element st name
            | Some c \<Rightarrow>
                (case call_cs h c st name attrs of
                   Inl (Fault f) \<Rightarrow> Inl f
                 | Inl (Raised e) \<Rightarrow> Inr (stop_parser st e)
                 | Inr (r, st') \<Rightarrow> if r \<noteq> 0 then Inr st' else unexpected_element st' name))"

definition end_element :: "handlers \<Rightarrow> parse_state \<Rightarrow> string \<Rightarrow> fault + parse_state" where
  "end_element h st name =
     (case stack st of
        [] \<Rightarrow> Inl AssertionFailure
      | pc # below \<Rightarrow>
          if ignore_level st \<noteq> 0 then Inr (st\<lparr>ignore_level := ignore_level st - 1\<rparr>)
          else
            case f_call pc of
              None \<Rightarrow> Inr (pop_callbacks st)
            | Some f \<Rightarrow>
                (case call_f h f st of
                   Inl (Fault x) \<Rightarrow> Inl x
                 | Inl (Raised e) \<Rightarrow> Inr (pop_callbacks (stop_parser st e))
                 | Inr st' \<Rightarrow> (if stack st' = [] then Inl AssertionFailure
                               else Inr (pop_callbacks st'))))"

definition character_data :: "handlers \<Rightarrow> parse_state \<Rightarrow> string \<Rightarrow> fault + parse_state" where
  "character_data h st s =
     (case stack st of
        [] \<Rightarrow> Inl AssertionFailure
      | pc # below \<Rightarrow>
          if ignore_level st \<noteq> 0 then Inr st
          else
            case t_call pc of
              Some t \<Rightarrow>
                (case call_t h t st s of
                   Inl (Fault f) \<Rightarrow> Inl f
                 | Inl (Raised e) \<Rightarrow> Inr (stop_parser st e)
                 | Inr st' \<Rightarrow> Inr st')
            | None \<Rightarrow>
                if non_whitespace s (int (length s)) then
                  (case set_parse_warning st ''unexpected character data'' of
                     Inl (Fault f) \<Rightarrow> Inl f
                   | Inl (Raised e) \<Rightarrow> Inr (stop_parser st e)
                   | Inr st' \<Rightarrow> Inr st')
                else Inr st)"

text \<open>
  The events of a document as expat delivers them, each with the line that
  \<^verbatim>\<open>XML_GetCurrentLineNumber\<close> returns during its callback.  Once the parser is stopped
  no further callback is made.
\<close>

datatype xml_event =
    StartElement string "(string \<times> string) list"
  | EndElement string
  | CharacterData string

fun handle_event :: "handlers \<Rightarrow> parse_state \<Rightarrow> xml_event \<Rightarrow> fault + parse_state" where
  "handle_event h st (StartElement name attrs) = start_element h st name attrs"
| "handle_event h st (EndElement name) = end_element h st name"
| "handle_event h st (CharacterData s) = character_data h st s"

fun deliver :: "handlers \<Rightarrow> parse_state \<Rightarrow> (int \<times> xml_event) list \<Rightarrow> fault + parse_state" where
  "deliver h st [] = Inr st"
| "deliver h st (ev # evs) =
     (if stopped st then Inr st
      else case handle_event h (st\<lparr>lineno := fst ev\<rparr>) (snd ev) of
             Inl f \<Rightarrow> Inl f
           | Inr st' \<Rightarrow> deliver h st' evs)"

text \<open>
  The level of \<^verbatim>\<open>ignore_level\<close> after events that are all ignored, starting from the
  level \<open>k\<close>: \<open>None\<close> when the level would return to 0 before the end, or pass
  \<^verbatim>\<open>INT_MAX\<close>.  The content of an element that was opened at level 0 and is ignored is a
  list of events that leads from level 1 to level 1.
\<close>

fun level_after :: "int \<Rightarrow> xml_event list \<Rightarrow> int option" where
  "level_after k [] = Some k"
| "level_after k (StartElement name attrs # evs) =
     (if k \<ge> INT_MAX then None else level_after (k + 1) evs)"
| "level_after k (EndElement name # evs) = (if k \<le> 1 then None else level_after (k - 1) evs)"
| "level_after k (CharacterData s # evs) = level_after k evs"

definition element_content :: "(int \<times> xml_event) list \<Rightarrow> bool" where
  "element_content evs \<longleftrightarrow> level_after 1 (map snd evs) = Some 1"



section \<open>The driver\<close>

text \<open>
  A root element of the schema: the code of its name, the name (the tag of the result),
  and its type with the index of the class of the type.
\<close>

record root_element =
  root_code :: int
  root_name :: string
  root_class :: node_class
  root_class_index :: nat

text \<open>
  \<^verbatim>\<open>toplevel_start\<close>.  The frame on top is the first frame, whose \<^verbatim>\<open>value\<close> is
  \<^verbatim>\<open>&r_obj\<close>.  After \<^verbatim>\<open>set_parse_error\<close> the function goes on: it does not return.
\<close>

definition toplevel_start ::
  "env \<Rightarrow> root_element list \<Rightarrow> parse_state \<Rightarrow> string \<Rightarrow> (string \<times> string) list
   \<Rightarrow> failure + (int \<times> parse_state)" where
  "toplevel_start e roots st child_name attr =
     bind_f (element_lookup e child_name) (\<lambda>idx.
       case find (\<lambda>r. root_code r = idx) roots of
         None \<Rightarrow> Inr (0, st)
       | Some root \<Rightarrow>
           let st1 = (if r_obj st \<noteq> None
                      then st\<lparr>exc := Some (set_parse_error st
                                   ''cannot have more than one root element'')\<rparr>
                      else st);
               tag = Some (PyUnicode (root_name root));
               st2 = st1\<lparr>r_obj := Some (TaggedValue tag None)\<rparr>
           in bind_f (node_class_start e (root_class root) (root_class_index root)
                        st2 [Payload] attr) (\<lambda>(r, st3, v).
                Inr (r, st3\<lparr>r_obj := Some (TaggedValue tag v)\<rparr>)))"

text \<open>
  The state with which \<^verbatim>\<open>parse\<close> starts.  The first frame gets its \<^verbatim>\<open>value\<close> and its
  \<^verbatim>\<open>cs_call\<close>; its other two pointers are not set by \<^verbatim>\<open>parse\<close> and are not read,
  since expat reports no text and no end tag outside the root element.  No error of
  expat is pending while a callback runs, so \<^verbatim>\<open>XML_ErrorString\<close> gives \<^verbatim>\<open>NULL\<close>.
\<close>

definition parse_initial :: "bool \<Rightarrow> parse_state" where
  "parse_initial warn_error =
     \<lparr>stack = [\<lparr>cb_value = Some [], cs_call = Some Toplevel_start, t_call = None,
                f_call = None\<rparr>],
      ignore_level = 0, lineno = 1, xml_error = None, stopped = False,
      warn_is_error = warn_error, warnings = [], exc = None, r_obj = None\<rparr>"

text \<open>
  The end of \<^verbatim>\<open>parse\<close>, from the result \<open>r\<close> of \<^verbatim>\<open>parse_str\<close> or \<^verbatim>\<open>parse_file\<close>:
  the object it returns and the error indicator it leaves.
\<close>

definition parse_result :: "int \<Rightarrow> parse_state \<Rightarrow> pyobj option \<times> py_exc option" where
  "parse_result r st =
     (if r \<noteq> 0 then (None, exc st)
      else if r_obj st = None
      then (None, Some (ParseError (Some ''document without a recognized root element'') None))
      else (r_obj st, exc st))"

text \<open>
  \<^verbatim>\<open>parse\<close> on a document that expat accepts and reports as the events \<open>evs\<close>:
  \<^verbatim>\<open>XML_Parse\<close> fails only when a handler has stopped the parser.
\<close>

definition parse_events ::
  "handlers \<Rightarrow> bool \<Rightarrow> (int \<times> xml_event) list \<Rightarrow> fault + (pyobj option \<times> py_exc option)" where
  "parse_events h warn_error evs =
     (case deliver h (parse_initial warn_error) evs of
        Inl f \<Rightarrow> Inl f
      | Inr st \<Rightarrow> Inr (parse_result (if stopped st then - 1 else 0) st))"

definition example_doc :: node_class where
  "example_doc =
     \<lparr>nc_name = ''doc'', nc_is_list_e = False, nc_field_count = 0,
      nc_attributes = [], nc_children = [], nc_other_attr = OtherAttr_ignore,
      nc_has_children_or_content = False, nc_has_children_or_tuple_content = False,
      nc_allow_text = False\<rparr>"

definition example_roots :: "root_element list" where
  "example_roots =
     [\<lparr>root_code = 0, root_name = ''doc'', root_class = example_doc, root_class_index = 6\<rparr>]"

definition example_handlers :: handlers where
  "example_handlers =
     \<lparr>call_cs = (\<lambda>c st name attrs.
         case c of
           Toplevel_start \<Rightarrow> toplevel_start example_env example_roots st name attrs
         | Node_class_child_start T \<Rightarrow> Inr (0, st)),
      call_t = (\<lambda>t st s. Inr st),
      call_f = (\<lambda>f st. Inr st)\<rparr>"

lemma deliver_append:
  "deliver h st (xs @ ys) =
     (case deliver h st xs of Inl f \<Rightarrow> Inl f | Inr st' \<Rightarrow> deliver h st' ys)"
proof (induction xs arbitrary: st)
  case Nil
  then show ?case by simp
next
  case (Cons x xs)
  show ?case
  proof (cases "stopped st")
    case True
    then show ?thesis by (cases ys) simp_all
  next
    case False
    then show ?thesis by (simp add: Cons.IH split: sum.splits)
  qed
qed

lemma deliver_ignored:
  assumes "level_after k (map snd evs) = Some k'"
    and "1 \<le> k" "ignore_level st = k" "stack st \<noteq> []" "\<not> stopped st"
  shows "deliver h st evs =
     Inr (st\<lparr>lineno := (if evs = [] then lineno st else fst (last evs)), ignore_level := k'\<rparr>)"
  using assms
proof (induction evs arbitrary: st k)
  case Nil
  then show ?case by simp
next
  case (Cons ev evs)
  obtain pc below where stk: "stack st = pc # below"
    using Cons.prems(4) by (cases "stack st") auto
  show ?case
  proof (cases "snd ev")
    case (StartElement name attrs)
    then have lt: "k < INT_MAX" and la: "level_after (k + 1) (map snd evs) = Some k'"
      using Cons.prems(1) by (auto split: if_splits)
    let ?st1 = "st\<lparr>lineno := fst ev, ignore_level := k + 1\<rparr>"
    have step: "handle_event h (st\<lparr>lineno := fst ev\<rparr>) (snd ev) = Inr ?st1"
      using StartElement stk Cons.prems(2,3) lt by (simp add: start_element_def)
    have "deliver h ?st1 evs =
       Inr (?st1\<lparr>lineno := (if evs = [] then lineno ?st1 else fst (last evs)), ignore_level := k'\<rparr>)"
      using Cons.IH [OF la, of ?st1] Cons.prems(2,4,5) by simp
    then show ?thesis
      using step Cons.prems(5) by simp
  next
    case (EndElement name)
    then have gt: "1 < k" and la: "level_after (k - 1) (map snd evs) = Some k'"
      using Cons.prems(1) by (auto split: if_splits)
    let ?st1 = "st\<lparr>lineno := fst ev, ignore_level := k - 1\<rparr>"
    have step: "handle_event h (st\<lparr>lineno := fst ev\<rparr>) (snd ev) = Inr ?st1"
      using EndElement stk Cons.prems(3) gt by (simp add: end_element_def)
    have "deliver h ?st1 evs =
       Inr (?st1\<lparr>lineno := (if evs = [] then lineno ?st1 else fst (last evs)), ignore_level := k'\<rparr>)"
      using Cons.IH [OF la, of ?st1] gt Cons.prems(4,5) by simp
    then show ?thesis
      using step Cons.prems(5) by simp
  next
    case (CharacterData s)
    then have la: "level_after k (map snd evs) = Some k'"
      using Cons.prems(1) by simp
    let ?st1 = "st\<lparr>lineno := fst ev\<rparr>"
    have step: "handle_event h (st\<lparr>lineno := fst ev\<rparr>) (snd ev) = Inr ?st1"
      using CharacterData stk Cons.prems(2,3) by (simp add: character_data_def)
    have "deliver h ?st1 evs =
       Inr (?st1\<lparr>lineno := (if evs = [] then lineno ?st1 else fst (last evs)), ignore_level := k'\<rparr>)"
      using Cons.IH [OF la, of ?st1] Cons.prems(2,3,4,5) by simp
    then show ?thesis
      using step Cons.prems(3,5) by simp
  qed
qed

lemma level_after_append:
  "level_after k (xs @ ys) = (case level_after k xs of None \<Rightarrow> None | Some m \<Rightarrow> level_after m ys)"
proof (induction xs arbitrary: k)
  case Nil
  then show ?case by simp
next
  case (Cons x xs)
  show ?case by (cases x) (simp_all add: Cons.IH)
qed

lemma level_after_positive:
  "1 \<le> k \<Longrightarrow> level_after k xs = Some m \<Longrightarrow> 1 \<le> m"
proof (induction xs arbitrary: k)
  case Nil
  then show ?case by simp
next
  case (Cons x xs)
  show ?case
  proof (cases x)
    case (StartElement name attrs)
    then show ?thesis using Cons.prems Cons.IH [of "k + 1"] by (auto split: if_splits)
  next
    case (EndElement name)
    then show ?thesis using Cons.prems Cons.IH [of "k - 1"] by (auto split: if_splits)
  next
    case (CharacterData s)
    then show ?thesis using Cons.prems Cons.IH [of k] by auto
  qed
qed

text \<open>
  The element that starts is not recognized by the frame on top of the stack: the frame
  has no callback for a child, or the callback returns 0 and leaves the state as it was
  (the \<^verbatim>\<open>default\<close> branch of the generated \<^verbatim>\<open>switch\<close>).
\<close>

definition unrecognized ::
  "handlers \<Rightarrow> parse_state \<Rightarrow> string \<Rightarrow> (string \<times> string) list \<Rightarrow> bool" where
  "unrecognized h st name attrs \<longleftrightarrow>
     (case stack st of
        [] \<Rightarrow> False
      | pc # below \<Rightarrow>
          (case cs_call pc of
             None \<Rightarrow> True
           | Some c \<Rightarrow> call_cs h c st name attrs = Inr (0, st)))"

lemma start_unrecognized:
  assumes "unrecognized h (st\<lparr>lineno := l0\<rparr>) name attrs"
    and "\<not> warn_is_error st" "ignore_level st = 0"
  shows "start_element h (st\<lparr>lineno := l0\<rparr>) name attrs =
     Inr (st\<lparr>lineno := l0,
            warnings := warnings st @ [(l0, ''unexpected element '' @ quoted name)],
            ignore_level := 1\<rparr>)"
  using assms
  by (auto simp: unrecognized_def start_element_def unexpected_element_def
      set_parse_warning_def split: list.splits option.splits)

lemma ignored_element_run:
  assumes "unrecognized h (st\<lparr>lineno := l0\<rparr>) name attrs"
    and "\<not> warn_is_error st" and "\<not> stopped st" and "ignore_level st = 0"
    and "element_content inner"
  shows "deliver h st ((l0, StartElement name attrs) # inner @ [(l1, EndElement name)]) =
           Inr (st\<lparr>lineno := l1,
                  warnings := warnings st @ [(l0, ''unexpected element '' @ quoted name)]\<rparr>)
       \<and> (\<forall>k \<le> length inner.
            \<exists>st'. deliver h st ((l0, StartElement name attrs) # take k inner) = Inr st' \<and>
                  0 < ignore_level st' \<and> stack st' = stack st \<and> r_obj st' = r_obj st \<and>
                  exc st' = exc st \<and> \<not> stopped st' \<and>
                  warnings st' = warnings st @ [(l0, ''unexpected element '' @ quoted name)])
       \<and> (\<forall>rest. deliver h st
                    (((l0, StartElement name attrs) # inner @ [(l1, EndElement name)]) @ rest) =
                  deliver h
                    (st\<lparr>lineno := l1,
                       warnings := warnings st @ [(l0, ''unexpected element '' @ quoted name)]\<rparr>)
                    rest)"
proof -
  let ?w = "(l0, ''unexpected element '' @ quoted name)"
  let ?s1 = "st\<lparr>lineno := l0, warnings := warnings st @ [?w], ignore_level := 1\<rparr>"
  have stk: "stack st \<noteq> []"
    using assms(1) by (auto simp: unrecognized_def split: list.splits)
  have start: "start_element h (st\<lparr>lineno := l0\<rparr>) name attrs = Inr ?s1"
    using start_unrecognized [OF assms(1,2,4)] .
  have s1: "ignore_level ?s1 = 1" "stack ?s1 \<noteq> []" "\<not> stopped ?s1"
    using stk assms(3) by simp_all
  have run: "deliver h st ((l0, StartElement name attrs) # evs) = deliver h ?s1 evs" for evs
    using start assms(3) by simp
  have part: "\<exists>st'. deliver h st ((l0, StartElement name attrs) # take k inner) = Inr st' \<and>
                  0 < ignore_level st' \<and> stack st' = stack st \<and> r_obj st' = r_obj st \<and>
                  exc st' = exc st \<and> \<not> stopped st' \<and> warnings st' = warnings st @ [?w]"
    if "k \<le> length inner" for k
  proof -
    have "level_after 1 (map snd (take k inner) @ map snd (drop k inner)) = Some 1"
      using assms(5) by (simp add: element_content_def flip: map_append)
    then obtain m where m: "level_after 1 (map snd (take k inner)) = Some m"
      by (auto simp: level_after_append split: option.splits)
    have pos: "1 \<le> m" using level_after_positive [OF _ m] by simp
    show ?thesis
      using deliver_ignored [where h = h, OF m _ s1] run [of "take k inner"] pos assms(3)
      by simp
  qed
  have body: "deliver h ?s1 inner =
      Inr (?s1\<lparr>lineno := (if inner = [] then l0 else fst (last inner)), ignore_level := 1\<rparr>)"
    using deliver_ignored [where k = 1 and evs = inner and h = h, OF _ _ s1] assms(5)
    by (simp add: element_content_def)
  let ?s2 = "?s1\<lparr>lineno := (if inner = [] then l0 else fst (last inner)), ignore_level := 1\<rparr>"
  have close: "deliver h ?s2 [(l1, EndElement name)] =
      Inr (st\<lparr>lineno := l1, warnings := warnings st @ [?w]\<rparr>)"
    using stk assms(3,4)
    by (cases "stack st") (simp_all add: end_element_def)
  have whole: "deliver h st ((l0, StartElement name attrs) # inner @ [(l1, EndElement name)]) =
           Inr (st\<lparr>lineno := l1, warnings := warnings st @ [?w]\<rparr>)"
    using run [of "inner @ [(l1, EndElement name)]"] body close
    by (simp add: deliver_append)
  have after: "deliver h st
        (((l0, StartElement name attrs) # inner @ [(l1, EndElement name)]) @ rest) =
      deliver h (st\<lparr>lineno := l1, warnings := warnings st @ [?w]\<rparr>) rest" for rest
    using whole by (simp only: deliver_append [of h st _ rest] sum.case)
  show ?thesis using whole part after by blast
qed

text \<open>
  C7.  When the element that starts is not recognized and warnings are not exceptions:
  the start issues exactly one warning and sets the level to 1; after the start and any
  part of the content of the element the level is still positive, and the stack, the
  value under construction and the warnings are those after the start; after the end tag
  of the element the state is the state before the element with that one warning more
  (the level is 0 again), so the events that follow are handled as they would be
  without the element.
\<close>

theorem unknown_element_ignored:
  assumes "unrecognized h (st\<lparr>lineno := l0\<rparr>) name attrs"
    and "\<not> warn_is_error st" and "\<not> stopped st" and "ignore_level st = 0"
    and "element_content inner"
  shows "deliver h st ((l0, StartElement name attrs) # inner @ [(l1, EndElement name)]) =
           Inr (st\<lparr>lineno := l1,
                  warnings := warnings st @ [(l0, ''unexpected element '' @ quoted name)]\<rparr>)
       \<and> (\<forall>k \<le> length inner.
            \<exists>st'. deliver h st ((l0, StartElement name attrs) # take k inner) = Inr st' \<and>
                  0 < ignore_level st' \<and> stack st' = stack st \<and> r_obj st' = r_obj st \<and>
                  exc st' = exc st \<and> \<not> stopped st' \<and>
                  warnings st' = warnings st @ [(l0, ''unexpected element '' @ quoted name)])
       \<and> (\<forall>rest. deliver h st
                    (((l0, StartElement name attrs) # inner @ [(l1, EndElement name)]) @ rest) =
                  deliver h
                    (st\<lparr>lineno := l1,
                       warnings := warnings st @ [(l0, ''unexpected element '' @ quoted name)]\<rparr>)
                    rest)"
  using ignored_element_run [OF assms] .

lemma example_unrecognized:
  "unrecognized example_handlers ((parse_initial False)\<lparr>lineno := 1\<rparr>) ''zzz'' []"
  by (simp add: unrecognized_def parse_initial_def example_handlers_def toplevel_start_def
      example_env_def example_roots_def find_str_in_array_def bind_f_def)

theorem unknown_element_ignored_witness:
  "unrecognized example_handlers ((parse_initial False)\<lparr>lineno := 1\<rparr>) ''zzz'' []
   \<and> \<not> warn_is_error (parse_initial False) \<and> \<not> stopped (parse_initial False)
   \<and> ignore_level (parse_initial False) = 0
   \<and> element_content
        [(2, StartElement ''y'' []), (2, CharacterData ''text''), (3, EndElement ''y'')]
   \<and> deliver example_handlers (parse_initial False)
        ((1, StartElement ''zzz'' []) #
         [(2, StartElement ''y'' []), (2, CharacterData ''text''), (3, EndElement ''y'')] @
         [(4, EndElement ''zzz'')]) =
       Inr ((parse_initial False)
              \<lparr>lineno := 4, warnings := [(1, ''unexpected element '' @ quoted ''zzz'')]\<rparr>)"
proof -
  let ?inner = "[(2, StartElement ''y'' []), (2, CharacterData ''text''), (3, EndElement ''y'')]"
  have h2: "\<not> warn_is_error (parse_initial False)" and h3: "\<not> stopped (parse_initial False)"
    and h4: "ignore_level (parse_initial False) = 0"
    by (simp_all add: parse_initial_def)
  have h5: "element_content ?inner"
    by (simp add: element_content_def INT_MAX_def)
  note t = unknown_element_ignored [OF example_unrecognized h2 h3 h4 h5, of 4]
  have "deliver example_handlers (parse_initial False)
        ((1, StartElement ''zzz'' []) # ?inner @ [(4, EndElement ''zzz'')]) =
       Inr ((parse_initial False)
              \<lparr>lineno := 4, warnings := [(1, ''unexpected element '' @ quoted ''zzz'')]\<rparr>)"
    using t by (simp add: parse_initial_def)
  then show ?thesis
    using example_unrecognized h2 h3 h4 h5 by blast
qed

lemma document_without_root:
  "r_obj st = None \<Longrightarrow>
   parse_result 0 st =
     (None, Some (ParseError (Some ''document without a recognized root element'') None))"
  by (simp add: parse_result_def)

lemma unrecognized_root_document:
  assumes "unrecognized h ((parse_initial False)\<lparr>lineno := l0\<rparr>) name attrs"
    and "element_content inner"
  shows "parse_events h False ((l0, StartElement name attrs) # inner @ [(l1, EndElement name)]) =
     Inr (None, Some (ParseError (Some ''document without a recognized root element'') None))"
proof -
  have "deliver h (parse_initial False)
          ((l0, StartElement name attrs) # inner @ [(l1, EndElement name)]) =
        Inr ((parse_initial False)
               \<lparr>lineno := l1,
                warnings := warnings (parse_initial False)
                  @ [(l0, ''unexpected element '' @ quoted name)]\<rparr>)"
    using ignored_element_run [OF assms(1) _ _ _ assms(2), of l1]
    by (simp add: parse_initial_def)
  then show ?thesis
    by (simp add: parse_events_def parse_result_def parse_initial_def)
qed

section \<open>Feeding the document to expat\<close>

text \<open>
  Expat is not part of the repository.  A parser with its handlers and user data is a
  value of a type \<open>'x\<close>, and what the driver calls is a record: \<^verbatim>\<open>XML_Parse\<close> (the
  status is \<open>True\<close> for \<^verbatim>\<open>XML_STATUS_OK\<close>; \<^verbatim>\<open>XML_GetBuffer\<close> followed by
  \<^verbatim>\<open>XML_ParseBuffer\<close> is \<^verbatim>\<open>XML_Parse\<close> on the bytes put into the buffer),
  \<^verbatim>\<open>XML_SetEncoding\<close> with \<^verbatim>\<open>"utf-8"\<close>, the ParseError that \<^verbatim>\<open>raise_expat_error\<close>
  builds from the error string and the error line of the parser, and the user data.
\<close>

record 'x expat =
  XML_Parse :: "'x \<Rightarrow> string \<Rightarrow> bool \<Rightarrow> bool \<times> 'x"
  XML_SetEncoding :: "'x \<Rightarrow> 'x"
  expat_error :: "'x \<Rightarrow> py_exc"
  user_data :: "'x \<Rightarrow> parse_state"

definition EXPAT_BUFFER_SIZE :: nat where
  "EXPAT_BUFFER_SIZE = 0x1000"

definition EXPAT_CHUNK_SIZE :: nat where
  "EXPAT_CHUNK_SIZE = 2 ^ 20"

text \<open>\<^verbatim>\<open>raise_expat_error\<close>: the exception that is pending after the call.\<close>

definition raise_expat_error :: "'x expat \<Rightarrow> 'x \<Rightarrow> py_exc" where
  "raise_expat_error X x =
     (case exc (user_data X x) of Some e \<Rightarrow> e | None \<Rightarrow> expat_error X x)"

text \<open>
  The argument of \<^verbatim>\<open>parse_str\<close> and the results of \<^verbatim>\<open>read\<close>: a \<^verbatim>\<open>str\<close> (with its
  UTF-8 encoding), \<^verbatim>\<open>bytes\<close>, a \<^verbatim>\<open>bytearray\<close>, or another object.  A file is the list
  of what its \<^verbatim>\<open>read\<close> returns or raises, call after call; at the end of the list
  \<^verbatim>\<open>read\<close> returns empty \<^verbatim>\<open>bytes\<close>.
\<close>

datatype py_data = PyStr string | PyBytes string | PyByteArray string | PyOther

definition too_much_data :: "nat \<Rightarrow> nat \<Rightarrow> py_exc" where
  "too_much_data buf_size len =
     ValueError (''read() returned too much data: '' @ decimal buf_size
                 @ '' bytes requested, '' @ decimal len @ '' returned'')"

definition call_read :: "nat \<Rightarrow> py_exc + py_data \<Rightarrow> py_exc + string" where
  "call_read buf_size rd =
     (case rd of
        Inl e \<Rightarrow> Inl e
      | Inr (PyBytes s) \<Rightarrow>
          if length s > buf_size then Inl (too_much_data buf_size (length s)) else Inr s
      | Inr (PyByteArray s) \<Rightarrow>
          if length s > buf_size then Inl (too_much_data buf_size (length s)) else Inr s
      | Inr _ \<Rightarrow> Inl (TypeError ''read() did not return a bytes object''))"

text \<open>
  \<^verbatim>\<open>parse_file\<close>: \<open>Inl\<close> is the result \<^verbatim>\<open>-1\<close> with the pending exception, \<open>Inr\<close>
  the result 0.
\<close>

fun parse_file :: "'x expat \<Rightarrow> 'x \<Rightarrow> (py_exc + py_data) list \<Rightarrow> py_exc + 'x" where
  "parse_file X x [] =
     (case XML_Parse X x [] True of
        (ok, x') \<Rightarrow> if ok then Inr x' else Inl (raise_expat_error X x'))"
| "parse_file X x (rd # reads) =
     (case call_read EXPAT_BUFFER_SIZE rd of
        Inl e \<Rightarrow> Inl e
      | Inr s \<Rightarrow>
          (case XML_Parse X x s (s = []) of
             (ok, x') \<Rightarrow>
               if \<not> ok then Inl (raise_expat_error X x')
               else if s = [] then Inr x'
               else parse_file X x' reads))"

function parse_str_loop :: "'x expat \<Rightarrow> 'x \<Rightarrow> string \<Rightarrow> py_exc + 'x" where
  "parse_str_loop X x s =
     (if length s > EXPAT_CHUNK_SIZE then
        (case XML_Parse X x (take EXPAT_CHUNK_SIZE s) False of
           (ok, x') \<Rightarrow>
             if \<not> ok then Inl (raise_expat_error X x')
             else parse_str_loop X x' (drop EXPAT_CHUNK_SIZE s))
      else
        (case XML_Parse X x s True of
           (ok, x') \<Rightarrow> if ok then Inr x' else Inl (raise_expat_error X x')))"
  by pat_completeness auto
termination
  by (relation "measure (\<lambda>(X, x, s). length s)") (auto simp: EXPAT_CHUNK_SIZE_def)

declare parse_str_loop.simps [simp del]

definition parse_str :: "'x expat \<Rightarrow> 'x \<Rightarrow> py_data \<Rightarrow> py_exc + 'x" where
  "parse_str X x data =
     (case data of
        PyStr s \<Rightarrow> parse_str_loop X (XML_SetEncoding X x) s
      | PyBytes s \<Rightarrow> parse_str_loop X x s
      | PyByteArray s \<Rightarrow> parse_str_loop X x s
      | PyOther \<Rightarrow>
          Inl (TypeError (''argument to '' @ quoted ''parse_str''
                          @ '' must be an instance of str, bytes or bytearray'')))"

datatype expat_source = EXPAT_SOURCE_STR py_data | EXPAT_SOURCE_FILE "(py_exc + py_data) list"

text \<open>
  \<^verbatim>\<open>parse\<close>, from the parser \<open>x\<close> that it has created and given its handlers and its
  state: the object it returns and the error indicator.
\<close>

definition parse :: "'x expat \<Rightarrow> 'x \<Rightarrow> expat_source \<Rightarrow> pyobj option \<times> py_exc option" where
  "parse X x source =
     (case (case source of
              EXPAT_SOURCE_STR data \<Rightarrow> parse_str X x data
            | EXPAT_SOURCE_FILE reads \<Rightarrow> parse_file X x reads) of
        Inl e \<Rightarrow> (None, Some e)
      | Inr x' \<Rightarrow> parse_result 0 (user_data X x'))"

end
